theory Spec2Isabelle
  imports Complex_Main "HOL-Library.Sublist"
begin

section \<open>Strings\<close>

text \<open>
  A JavaScript string is a sequence of UTF-16 code units. The model's strings are lists
  of \<^typ>\<open>char\<close>, each read as one code unit in the range 0..255 (Latin-1); on such
  strings the functions below compute what the JavaScript built-ins compute.
  \<^item> \<^verbatim>\<open>toLowerCase\<close> maps A..Z and the Latin-1 capitals (192..222 but 215) to the letter
    32 code units above, and leaves every other unit.
  \<^item> The white space of \<^verbatim>\<open>\s\<close> and of \<^verbatim>\<open>trim()\<close> is TAB, LF, VT, FF, CR, SPACE and
    NBSP.
\<close>

definition lower_char :: "char \<Rightarrow> char" where
  "lower_char c =
     (let n = (of_char c :: nat) in
      if (65 \<le> n \<and> n \<le> 90) \<or> (192 \<le> n \<and> n \<le> 222 \<and> n \<noteq> 215)
      then char_of (n + 32) else c)"

definition toLowerCase :: "string \<Rightarrow> string" where
  "toLowerCase s = map lower_char s"

definition is_space :: "char \<Rightarrow> bool" where
  "is_space c = ((of_char c :: nat) \<in> {9, 10, 11, 12, 13, 32, 160})"

definition is_digit :: "char \<Rightarrow> bool" where
  "is_digit c = (48 \<le> (of_char c :: nat) \<and> (of_char c :: nat) \<le> 57)"

definition is_word :: "char \<Rightarrow> bool" where
  "is_word c =
     (let n = (of_char c :: nat) in
      (48 \<le> n \<and> n \<le> 57) \<or> (65 \<le> n \<and> n \<le> 90) \<or> (97 \<le> n \<and> n \<le> 122) \<or> n = 95)"

text \<open>\<^verbatim>\<open>.\<close> matches every code unit but the line terminators LF and CR.\<close>

definition is_dot :: "char \<Rightarrow> bool" where
  "is_dot c = ((of_char c :: nat) \<noteq> 10 \<and> (of_char c :: nat) \<noteq> 13)"

definition newline :: char where
  "newline = CHR 0x0A"

text \<open>\<^verbatim>\<open>text.includes(pat)\<close>: \<open>pat\<close> occurs in \<open>text\<close> as a contiguous substring.\<close>

primrec str_includes :: "string \<Rightarrow> string \<Rightarrow> bool" where
  "str_includes [] pat = (pat = [])"
| "str_includes (c # cs) pat = (prefix pat (c # cs) \<or> str_includes cs pat)"

text \<open>\<^verbatim>\<open>s.substring(a, b)\<close> for non-negative arguments: both are clamped to the length,
  and swapped when \<open>a > b\<close>.\<close>

definition substring :: "string \<Rightarrow> nat \<Rightarrow> nat \<Rightarrow> string" where
  "substring s a b =
     (let a' = min a (length s); b' = min b (length s)
      in take (max a' b' - min a' b') (drop (min a' b') s))"

text \<open>\<^verbatim>\<open>s[i]\<close>: \<open>None\<close> is JavaScript's \<^verbatim>\<open>undefined\<close>, read out of range.\<close>

definition char_at :: "string \<Rightarrow> nat \<Rightarrow> char option" where
  "char_at s i = (if i < length s then Some (s ! i) else None)"

definition trim :: "string \<Rightarrow> string" where
  "trim s = rev (dropWhile is_space (rev (dropWhile is_space s)))"

section \<open>Regular expressions\<close>

text \<open>
  The regular expressions of the source are sequences of the atoms below, matched by
  backtracking in the priority order of ECMAScript: a greedy quantifier tries the
  longest run first, a lazy one the shortest; a lookahead consumes nothing. Every
  quantifier of the source stands on a single character class, so a quantified atom
  is a class with its bounds. One capture group is enough for the source.
\<close>

datatype atom =
    Lit string
  | LitI string
  | Cls "char \<Rightarrow> bool"
  | Rep bool nat "nat option" "char \<Rightarrow> bool"
  | Ahead "atom list list"
  | Eoi
  | GroupOpen
  | GroupClose

type_synonym regex = "atom list"

fun first_match :: "(nat \<Rightarrow> 'a option) \<Rightarrow> nat list \<Rightarrow> 'a option" where
  "first_match f [] = None"
| "first_match f (k # ks) = (case f k of Some x \<Rightarrow> Some x | None \<Rightarrow> first_match f ks)"

text \<open>The repetition counts a quantifier tries, in order, on a run of \<open>n\<close> characters
  of its class.\<close>

definition counts :: "bool \<Rightarrow> nat \<Rightarrow> nat option \<Rightarrow> nat \<Rightarrow> nat list" where
  "counts greedy lo hi n =
     (let top = (case hi of None \<Rightarrow> n | Some h \<Rightarrow> min h n) in
      if top < lo then [] else if greedy then rev [lo..<Suc top] else [lo..<Suc top])"

text \<open>\<open>re_at re s gs g\<close> matches \<open>re\<close> at the start of \<open>s\<close>: the text left after the
  match and the capture (\<open>gs\<close> is the text at the group's opening parenthesis, \<open>g\<close> the
  capture so far), or \<open>None\<close>. \<open>LitI\<close> is a literal under the flag \<^verbatim>\<open>i\<close>.\<close>

fun re_at :: "regex \<Rightarrow> string \<Rightarrow> string \<Rightarrow> string option \<Rightarrow> (string \<times> string option) option" where
  "re_at [] s gs g = Some (s, g)"
| "re_at (Lit l # r) s gs g = (if prefix l s then re_at r (drop (length l) s) gs g else None)"
| "re_at (LitI l # r) s gs g =
     (if length l \<le> length s \<and> toLowerCase (take (length l) s) = toLowerCase l
      then re_at r (drop (length l) s) gs g else None)"
| "re_at (Cls P # r) s gs g =
     (case s of [] \<Rightarrow> None | c # cs \<Rightarrow> if P c then re_at r cs gs g else None)"
| "re_at (Rep greedy lo hi P # r) s gs g =
     first_match (\<lambda>k. re_at r (drop k s) gs g) (counts greedy lo hi (length (takeWhile P s)))"
| "re_at (Ahead alts # r) s gs g =
     (if list_ex (\<lambda>a. re_at a s gs g \<noteq> None) alts then re_at r s gs g else None)"
| "re_at (Eoi # r) s gs g = (if s = [] then re_at r s gs g else None)"
| "re_at (GroupOpen # r) s gs g = re_at r s s g"
| "re_at (GroupClose # r) s gs g = re_at r s gs (Some (take (length gs - length s) gs))"

text \<open>\<^verbatim>\<open>s.match(re)\<close> without the flag \<^verbatim>\<open>g\<close>: the leftmost position where \<open>re\<close> matches.
  The result is the text before the match, the matched text, the text after it and
  the capture.\<close>

fun re_search :: "regex \<Rightarrow> string \<Rightarrow> (string \<times> string \<times> string \<times> string option) option" where
  "re_search re [] =
     (case re_at re [] [] None of
        Some (rest, g) \<Rightarrow> Some ([], [], [], g)
      | None \<Rightarrow> None)"
| "re_search re (c # cs) =
     (case re_at re (c # cs) [] None of
        Some (rest, g) \<Rightarrow> Some ([], take (length (c # cs) - length rest) (c # cs), rest, g)
      | None \<Rightarrow>
         (case re_search re cs of
            Some (before, matched, rest, g) \<Rightarrow> Some (c # before, matched, rest, g)
          | None \<Rightarrow> None))"

text \<open>\<^verbatim>\<open>s.replace(re, f)\<close> without the flag \<^verbatim>\<open>g\<close>: the leftmost match is replaced by
  \<open>f\<close> of its capture; without a match the string is returned as it is.\<close>

definition js_replace :: "regex \<Rightarrow> (string option \<Rightarrow> string) \<Rightarrow> string \<Rightarrow> string" where
  "js_replace re f s =
     (case re_search re s of
        Some (before, matched, rest, g) \<Rightarrow> before @ f g @ rest
      | None \<Rightarrow> s)"

text \<open>
  \<^verbatim>\<open>s.split(re)\<close> for a regex without capture groups, as ECMAScript defines it: \<open>cur\<close> is
  the chunk read so far (reversed), the third argument the text from the current
  position. A match that consumes text closes the chunk and continues after the
  match. An empty match at the start of a chunk is skipped; an empty match further on
  closes the chunk without consuming anything.
\<close>

function js_split_loop :: "regex \<Rightarrow> string \<Rightarrow> string \<Rightarrow> string list" where
  "js_split_loop re cur [] = [rev cur]"
| "js_split_loop re cur (c # cs) =
     (case re_at re (c # cs) [] None of
        None \<Rightarrow> js_split_loop re (c # cur) cs
      | Some (rest, g) \<Rightarrow>
          if length rest < length (c # cs) then rev cur # js_split_loop re [] rest
          else if cur = [] then js_split_loop re [c] cs
          else rev cur # js_split_loop re [c] cs)"
  by pat_completeness auto
termination
  by (relation "measure (\<lambda>(re, cur, s). length s)") auto

definition js_split :: "regex \<Rightarrow> string \<Rightarrow> string list" where
  "js_split re s =
     (if s = [] then (if re_at re [] [] None = None then [[]] else [])
      else js_split_loop re [] s)"

section \<open>Relevance score\<close>

text \<open>
  The source computes the score in IEEE double arithmetic; the model computes the same
  expression in exact rational arithmetic (\<open>0.8\<close> is 8/10, \<open>0.2\<close> is 2/10, \<open>0.3\<close> is
  3/10). Rounding is not modelled.
\<close>

text \<open>The loop over \<open>queryTerms\<close> that increments \<open>matchCount\<close>.\<close>

fun matchCount_loop :: "string \<Rightarrow> string list \<Rightarrow> nat \<Rightarrow> nat" where
  "matchCount_loop lowerText [] matchCount = matchCount"
| "matchCount_loop lowerText (t # ts) matchCount =
     matchCount_loop lowerText ts
       (if str_includes lowerText t then matchCount + 1 else matchCount)"

definition calculateRelevanceScore :: "string \<Rightarrow> string list \<Rightarrow> string \<Rightarrow> rat" where
  "calculateRelevanceScore query queryTerms text =
     (let lowerText = toLowerCase text in
      if str_includes lowerText (toLowerCase query) then 1
      else
        let matchCount = matchCount_loop lowerText queryTerms 0;
            termMatchRatio =
              (if length queryTerms > 0
               then of_nat matchCount / of_nat (length queryTerms) else 0);
            proximityFactor = (if matchCount \<ge> 2 then 2 / 10 else 0)
        in termMatchRatio * (8 / 10) + proximityFactor)"

text \<open>\<^verbatim>\<open>query.toLowerCase().split(/\s+/).filter(term => term.length > 2)\<close>\<close>

definition queryTerms_of :: "string \<Rightarrow> string list" where
  "queryTerms_of query =
     filter (\<lambda>t. length t > 2) (js_split [Rep True 1 None is_space] (toLowerCase query))"

section \<open>Snippet extraction\<close>

text \<open>The inner loop of the scan: the number of terms in the 100-character window.\<close>

fun termCount_loop :: "string \<Rightarrow> string list \<Rightarrow> nat \<Rightarrow> nat" where
  "termCount_loop window [] termCount = termCount"
| "termCount_loop window (t # ts) termCount =
     termCount_loop window ts (if str_includes window t then termCount + 1 else termCount)"

text \<open>The outer loop over every offset \<open>i\<close>; it returns \<open>bestPosition\<close>.\<close>

function find_best :: "string \<Rightarrow> string list \<Rightarrow> nat \<Rightarrow> nat \<Rightarrow> nat \<Rightarrow> nat" where
  "find_best lowerText queryTerms i bestPosition bestTermCount =
     (if i < length lowerText then
        (let termCount = termCount_loop (substring lowerText i (i + 100)) queryTerms 0 in
         if termCount > bestTermCount
         then find_best lowerText queryTerms (i + 1) i termCount
         else find_best lowerText queryTerms (i + 1) bestPosition bestTermCount)
      else bestPosition)"
  by pat_completeness auto
termination
  by (relation "measure (\<lambda>(lowerText, queryTerms, i, bp, bc). length lowerText - i)") auto

declare find_best.simps [simp del]

text \<open>The two loops that move the window's ends to a space or a newline.\<close>

function adjust_start :: "string \<Rightarrow> nat \<Rightarrow> nat" where
  "adjust_start text startPos =
     (if startPos > 0 \<and> char_at text startPos \<noteq> Some (CHR '' '')
         \<and> char_at text startPos \<noteq> Some newline
      then adjust_start text (startPos - 1) else startPos)"
  by pat_completeness auto
termination
  by (relation "measure (\<lambda>(text, startPos). startPos)") auto

declare adjust_start.simps [simp del]

function adjust_end :: "string \<Rightarrow> nat \<Rightarrow> nat" where
  "adjust_end text endPos =
     (if endPos < length text \<and> char_at text endPos \<noteq> Some (CHR '' '')
         \<and> char_at text endPos \<noteq> Some newline
      then adjust_end text (endPos + 1) else endPos)"
  by pat_completeness auto
termination
  by (relation "measure (\<lambda>(text, endPos). length text - endPos)") auto

declare adjust_end.simps [simp del]

definition MAX_SNIPPET_LENGTH :: nat where
  "MAX_SNIPPET_LENGTH = 150"

text \<open>\<open>bestPosition\<close>, and the window \<open>(startPos, endPos)\<close> after the adjustment.
  \<^verbatim>\<open>Math.max(0, bestPosition - 30)\<close> is the truncated subtraction of \<open>nat\<close>.\<close>

definition bestPosition_of :: "string \<Rightarrow> string list \<Rightarrow> nat" where
  "bestPosition_of text queryTerms = find_best (toLowerCase text) queryTerms 0 0 0"

definition snippet_window :: "string \<Rightarrow> string list \<Rightarrow> nat \<times> nat" where
  "snippet_window text queryTerms =
     (let bestPosition = bestPosition_of text queryTerms;
          startPos = max 0 (bestPosition - 30);
          endPos = min (length text) (bestPosition + MAX_SNIPPET_LENGTH - 30)
      in (adjust_start text startPos, adjust_end text endPos))"

definition extractRelevantSnippet :: "string \<Rightarrow> string list \<Rightarrow> string \<Rightarrow> string" where
  "extractRelevantSnippet text queryTerms sectionTitle =
     (let (startPos, endPos) = snippet_window text queryTerms;
          snippet0 = trim (substring text startPos endPos);
          snippet1 = (if startPos > 0 then ''...'' @ snippet0 else snippet0);
          snippet2 = (if endPos < length text then snippet1 @ ''...'' else snippet1)
      in if sectionTitle \<noteq> [] then ''**'' @ sectionTitle @ ''**: '' @ snippet2 else snippet2)"

section \<open>Search\<close>

record SearchResult =
  documentType :: string
  relevanceScore :: rat
  snippet :: string

text \<open>\<^verbatim>\<open>content.split(/\n#{2,3}\s+/).filter(Boolean)\<close>\<close>

definition heading_re :: regex where
  "heading_re = [Lit [newline], Rep True 2 (Some 3) (\<lambda>c. c = CHR ''#''), Rep True 1 None is_space]"

definition split_sections :: "string \<Rightarrow> string list" where
  "split_sections content = filter (\<lambda>s. s \<noteq> []) (js_split heading_re content)"

text \<open>\<^verbatim>\<open>section.match(/^([^\n]+)/)\<close>, then \<^verbatim>\<open>titleMatch ? titleMatch[1].trim() : ''\<close>.
  The pattern starts with \<^verbatim>\<open>^\<close>, so it is tried at position 0 only.\<close>

definition section_title :: "string \<Rightarrow> string" where
  "section_title sec =
     (case re_at [GroupOpen, Rep True 1 None (\<lambda>c. c \<noteq> newline), GroupClose] sec [] None of
        Some (rest, Some t) \<Rightarrow> trim t
      | _ \<Rightarrow> [])"

text \<open>\<^verbatim>\<open>section.split(/\n\n+/)\<close>\<close>

definition blank_re :: regex where
  "blank_re = [Lit [newline], Rep True 1 None (\<lambda>c. c = newline)]"

definition split_paragraphs :: "string \<Rightarrow> string list" where
  "split_paragraphs sec = js_split blank_re sec"

text \<open>The three nested loops of \<open>performAdvancedSearch\<close>; \<open>results\<close> is the array that
  \<^verbatim>\<open>push\<close> extends. The documents are the entries of the object, in iteration order.\<close>

fun paragraphs_loop ::
  "string \<Rightarrow> string list \<Rightarrow> string \<Rightarrow> string \<Rightarrow> string list \<Rightarrow> SearchResult list \<Rightarrow> SearchResult list" where
  "paragraphs_loop query queryTerms docType title [] results = results"
| "paragraphs_loop query queryTerms docType title (paragraph # ps) results =
     (let score = calculateRelevanceScore query queryTerms paragraph in
      paragraphs_loop query queryTerms docType title ps
        (if score > 3 / 10
         then results @ [\<lparr>documentType = docType, relevanceScore = score,
                          snippet = extractRelevantSnippet paragraph queryTerms title\<rparr>]
         else results))"

fun sections_loop ::
  "string \<Rightarrow> string list \<Rightarrow> string \<Rightarrow> string list \<Rightarrow> SearchResult list \<Rightarrow> SearchResult list" where
  "sections_loop query queryTerms docType [] results = results"
| "sections_loop query queryTerms docType (sec # secs) results =
     sections_loop query queryTerms docType secs
       (paragraphs_loop query queryTerms docType (section_title sec) (split_paragraphs sec) results)"

fun documents_loop ::
  "string \<Rightarrow> string list \<Rightarrow> (string \<times> string) list \<Rightarrow> SearchResult list \<Rightarrow> SearchResult list" where
  "documents_loop query queryTerms [] results = results"
| "documents_loop query queryTerms ((docType, content) # docs) results =
     documents_loop query queryTerms docs
       (sections_loop query queryTerms docType (split_sections content) results)"

text \<open>\<^verbatim>\<open>results.sort((a, b) => b.relevanceScore - a.relevanceScore).slice(0, 5)\<close>.
  \<^verbatim>\<open>Array.prototype.sort\<close> is stable, so it is the stable sort on the negated score.\<close>

definition performAdvancedSearch :: "string \<Rightarrow> (string \<times> string) list \<Rightarrow> SearchResult list" where
  "performAdvancedSearch query documents =
     (let queryTerms = queryTerms_of query;
          results = documents_loop query queryTerms documents []
      in take 5 (sort_key (\<lambda>r. - relevanceScore r) results))"

section \<open>Specification-side notions for the search\<close>

text \<open>The paragraphs of a corpus in the order the three loops meet them (document, then
  section, then paragraph), each with its document name and section title; the hit a
  paragraph gives; and the threshold test.\<close>

definition hit_of :: "string \<Rightarrow> string \<times> string \<times> string \<Rightarrow> SearchResult" where
  "hit_of query x =
     (case x of (docType, title, paragraph) \<Rightarrow>
        \<lparr>documentType = docType,
         relevanceScore = calculateRelevanceScore query (queryTerms_of query) paragraph,
         snippet = extractRelevantSnippet paragraph (queryTerms_of query) title\<rparr>)"

definition section_paragraphs :: "string \<Rightarrow> string \<Rightarrow> (string \<times> string \<times> string) list" where
  "section_paragraphs docType sec = map (\<lambda>p. (docType, section_title sec, p)) (split_paragraphs sec)"

definition encounter_order :: "(string \<times> string) list \<Rightarrow> (string \<times> string \<times> string) list" where
  "encounter_order documents =
     concat (map (\<lambda>(docType, content).
        concat (map (section_paragraphs docType) (split_sections content))) documents)"

definition above_threshold :: "string \<Rightarrow> string \<times> string \<times> string \<Rightarrow> bool" where
  "above_threshold query x =
     (case x of (docType, title, paragraph) \<Rightarrow>
        calculateRelevanceScore query (queryTerms_of query) paragraph > 3 / 10)"

text \<open>The score as the specification words it, counting the \<^emph>\<open>distinct\<close> terms that
  occur in the lower-cased paragraph.\<close>

definition distinct_matchCount :: "string \<Rightarrow> string list \<Rightarrow> nat" where
  "distinct_matchCount lowerText ts = length (remdups (filter (str_includes lowerText) ts))"

definition spec_score :: "string list \<Rightarrow> string \<Rightarrow> rat" where
  "spec_score ts text =
     (let matchCount = distinct_matchCount (toLowerCase text) ts;
          termMatchRatio = (if ts = [] then 0 else of_nat matchCount / of_nat (length ts));
          proximityFactor = (if matchCount \<ge> 2 then 2 / 10 else 0)
      in termMatchRatio * (8 / 10) + proximityFactor)"

section \<open>Specification-side notions for the snippet\<close>

text \<open>A word boundary as the two loops test it: a space or a newline.\<close>

definition is_boundary :: "char option \<Rightarrow> bool" where
  "is_boundary c = (c = Some (CHR '' '') \<or> c = Some newline)"

text \<open>The window after the adjustment, and the place of the trimmed snippet text in the
  paragraph: it starts after the white space that \<^verbatim>\<open>trim()\<close> strips from the front of
  the window, and ends before the white space stripped from its end.\<close>

definition startPos_of :: "string \<Rightarrow> string list \<Rightarrow> nat" where
  "startPos_of text queryTerms = fst (snippet_window text queryTerms)"

definition endPos_of :: "string \<Rightarrow> string list \<Rightarrow> nat" where
  "endPos_of text queryTerms = snd (snippet_window text queryTerms)"

definition body_start :: "string \<Rightarrow> string list \<Rightarrow> nat" where
  "body_start text queryTerms =
     (let (startPos, endPos) = snippet_window text queryTerms
      in startPos + length (takeWhile is_space (substring text startPos endPos)))"

definition snippet_body :: "string \<Rightarrow> string list \<Rightarrow> string" where
  "snippet_body text queryTerms =
     (let (startPos, endPos) = snippet_window text queryTerms
      in trim (substring text startPos endPos))"

definition body_end :: "string \<Rightarrow> string list \<Rightarrow> nat" where
  "body_end text queryTerms = body_start text queryTerms + length (snippet_body text queryTerms)"

text \<open>A paragraph longer than the window, for a concrete run of the extraction.\<close>

definition sample_paragraph :: string where
  "sample_paragraph = ''Every commit is built and unit tested before the integration suite starts; afterwards the manager promotes the build to staging where the canary analysis decides later on.''"

section \<open>Specification-side notions for the section splitter\<close>





section \<open>Document workflow from the rules file\<close>

text \<open>
  Two patterns of the source are built at run time, with \<^verbatim>\<open>new RegExp(source, 'i')\<close>, from a
  document type or a section name. When the interpolated name has no regex syntax
  character, the pattern is the fixed pattern around the name as a literal, and the model
  gives it as a \<^typ>\<open>regex\<close>. For every other name the meaning of the pattern is left to the
  JavaScript engine, a parameter of the model: it maps the pattern's source to \<open>None\<close> when
  the constructor throws \<^verbatim>\<open>SyntaxError\<close>, and to the pattern's search function otherwise.
\<close>

type_synonym js_match = "(string \<times> string \<times> string \<times> string option) option"

type_synonym js_engine = "string \<Rightarrow> (string \<Rightarrow> js_match) option"

definition syntax_chars :: string where
  "syntax_chars = [CHR 0x5C] @ ''^$.*+?()[]{}|''"

definition plain :: "string \<Rightarrow> bool" where
  "plain name = (\<forall>c \<in> set name. c \<notin> set syntax_chars)"

text \<open>\<^verbatim>\<open>documentType.replace(/Context/g, ' Context')\<close>: every occurrence, from left to
  right.\<close>

function replace_all :: "string \<Rightarrow> string \<Rightarrow> string \<Rightarrow> string" where
  "replace_all pat by [] = []"
| "replace_all pat by (c # cs) =
     (if pat \<noteq> [] \<and> prefix pat (c # cs)
      then by @ replace_all pat by (drop (length pat) (c # cs))
      else c # replace_all pat by cs)"
  by pat_completeness auto
termination
  by (relation "measure (\<lambda>(pat, by, s). length s)") auto

text \<open>The source of the pattern that locates the section of a document type, and the
  pattern itself for a plain name:
  \<^verbatim>\<open>###\s*\d+\.\s*NAME\s*\([\w\.]+\)[\s\S]*?(?=###\s*\d+\.\s*|##\s*|$)\<close>\<close>

definition section_source :: "string \<Rightarrow> string" where
  "section_source name =
     ''###'' @ [CHR 0x5C] @ ''s*'' @ [CHR 0x5C] @ ''d+'' @ [CHR 0x5C] @ ''.'' @ [CHR 0x5C] @ ''s*''
     @ name
     @ [CHR 0x5C] @ ''s*'' @ [CHR 0x5C] @ ''([''  @ [CHR 0x5C] @ ''w'' @ [CHR 0x5C] @ ''.]+''
     @ [CHR 0x5C] @ '')['' @ [CHR 0x5C] @ ''s'' @ [CHR 0x5C] @ ''S]*?(?=###'' @ [CHR 0x5C] @ ''s*''
     @ [CHR 0x5C] @ ''d+'' @ [CHR 0x5C] @ ''.'' @ [CHR 0x5C] @ ''s*|##'' @ [CHR 0x5C] @ ''s*|$)''"

definition section_re :: "string \<Rightarrow> regex" where
  "section_re name =
     [Lit ''###'', Rep True 0 None is_space, Rep True 1 None is_digit, Lit ''.'',
      Rep True 0 None is_space, LitI name, Rep True 0 None is_space, Lit ''('',
      Rep True 1 None (\<lambda>c. is_word c \<or> c = CHR ''.''), Lit '')'',
      Rep False 0 None (\<lambda>c. True),
      Ahead [[Lit ''###'', Rep True 0 None is_space, Rep True 1 None is_digit, Lit ''.'',
              Rep True 0 None is_space],
             [Lit ''##'', Rep True 0 None is_space],
             [Eoi]]]"

definition section_RegExp :: "js_engine \<Rightarrow> string \<Rightarrow> (string \<Rightarrow> js_match) option" where
  "section_RegExp js docType =
     (let name = replace_all ''Context'' '' Context'' docType in
      if plain name then Some (re_search (section_re name)) else js (section_source name))"

text \<open>The patterns of the four fields:
  \<^verbatim>\<open>/\*\*Purpose\*\*:\s*(.*?)(?=\n)/\<close>, \<^verbatim>\<open>/\*\*When to Update\*\*:\s*(.*?)(?=\n)/\<close>,
  \<^verbatim>\<open>/\*\*Structure\*\*:[\s\S]*?(?=\*\*|$)/\<close> and \<^verbatim>\<open>/\*\*Commands\*\*:[\s\S]*?(?=\*\*|$)/\<close>.\<close>

definition line_field_re :: "string \<Rightarrow> regex" where
  "line_field_re label =
     [Lit (''**'' @ label @ ''**:''), Rep True 0 None is_space,
      GroupOpen, Rep False 0 None is_dot, GroupClose, Ahead [[Lit [newline]]]]"

definition block_field_re :: "string \<Rightarrow> regex" where
  "block_field_re label =
     [Lit (''**'' @ label @ ''**:''), Rep False 0 None (\<lambda>c. True), Ahead [[Lit ''**''], [Eoi]]]"

text \<open>\<^verbatim>\<open>.replace(/\*\*Structure\*\*:\s*/, '')\<close> and the like.\<close>

definition strip_label :: "string \<Rightarrow> string \<Rightarrow> string" where
  "strip_label label s =
     js_replace [Lit (''**'' @ label @ ''**:''), Rep True 0 None is_space] (\<lambda>g. []) s"

text \<open>\<^verbatim>\<open>line.replace(/^\s*-\s*/, '')\<close>: the pattern starts with \<^verbatim>\<open>^\<close>, so it is tried at
  position 0 only.\<close>

definition strip_bullet :: "string \<Rightarrow> string" where
  "strip_bullet line =
     (case re_at [Rep True 0 None is_space, Lit ''-'', Rep True 0 None is_space] line [] None of
        Some (rest, g) \<Rightarrow> rest
      | None \<Rightarrow> line)"

text \<open>\<^verbatim>\<open>line.replace(/^\s*-\s*`(.*?)`.*/, '$1')\<close>: the match is replaced by its capture.\<close>

definition backtick :: char where
  "backtick = CHR 0x60"

definition extract_command :: "string \<Rightarrow> string" where
  "extract_command line =
     (case re_at [Rep True 0 None is_space, Lit ''-'', Rep True 0 None is_space, Lit [backtick],
                  GroupOpen, Rep False 0 None is_dot, GroupClose, Lit [backtick],
                  Rep True 0 None is_dot] line [] None of
        Some (rest, Some g) \<Rightarrow> g @ rest
      | _ \<Rightarrow> line)"

text \<open>\<^verbatim>\<open>.trim().split('\n').map(f).filter(line => line.length > 0)\<close>\<close>

definition field_lines :: "(string \<Rightarrow> string) \<Rightarrow> string \<Rightarrow> string list" where
  "field_lines f s =
     filter (\<lambda>line. length line > 0) (map (\<lambda>line. trim (f line)) (js_split [Lit [newline]] (trim s)))"

text \<open>The returned object; its field \<^verbatim>\<open>structure\<close> is \<open>structure'\<close> here.\<close>

record workflow =
  purpose :: string
  updateTiming :: string
  structure' :: "string list"
  commands :: "string list"

text \<open>The value returned when there is no match, and by the \<^verbatim>\<open>catch\<close> block.\<close>

definition default_workflow :: "string \<Rightarrow> workflow" where
  "default_workflow docType =
     \<lparr>purpose = ''Information about '' @ docType @ '' document'',
      updateTiming = ''As needed'',
      structure' = [''No specific structure defined''],
      commands = [''update_document '' @ toLowerCase docType]\<rparr>"

datatype js_error = ReadError | SyntaxError

text \<open>The first statements of the \<^verbatim>\<open>try\<close> block: the rules file is read (\<open>None\<close> when
  \<open>readByteRules\<close> throws), the pattern is built and matched. \<open>Inl\<close> is an exception,
  \<open>Inr None\<close> no match, \<open>Inr (Some sectionContent)\<close> the matched text.\<close>

definition byteRules_match :: "js_engine \<Rightarrow> string option \<Rightarrow> string \<Rightarrow> js_error + string option" where
  "byteRules_match js byteRules docType =
     (case byteRules of
        None \<Rightarrow> Inl ReadError
      | Some byteRulesContent \<Rightarrow>
          (case section_RegExp js docType of
             None \<Rightarrow> Inl SyntaxError
           | Some regex \<Rightarrow>
               (case regex byteRulesContent of
                  None \<Rightarrow> Inr None
                | Some (before, matched, rest, g) \<Rightarrow> Inr (Some matched))))"

definition parse_section :: "string \<Rightarrow> string \<Rightarrow> workflow" where
  "parse_section docType sectionContent =
     \<lparr>purpose =
        (case re_search (line_field_re ''Purpose'') sectionContent of
           Some (before, matched, rest, Some g) \<Rightarrow> trim g
         | _ \<Rightarrow> ''Information about '' @ docType),
      updateTiming =
        (case re_search (line_field_re ''When to Update'') sectionContent of
           Some (before, matched, rest, Some g) \<Rightarrow> trim g
         | _ \<Rightarrow> ''As needed''),
      structure' =
        (case re_search (block_field_re ''Structure'') sectionContent of
           Some (before, matched, rest, g) \<Rightarrow>
             field_lines strip_bullet (strip_label ''Structure'' matched)
         | None \<Rightarrow> [''No specific structure defined'']),
      commands =
        (case re_search (block_field_re ''Commands'') sectionContent of
           Some (before, matched, rest, g) \<Rightarrow>
             field_lines extract_command (strip_label ''Commands'' matched)
         | None \<Rightarrow> [''update_document '' @ toLowerCase docType])\<rparr>"

text \<open>The function never rejects: an exception in the \<^verbatim>\<open>try\<close> block is caught and the
  default is returned.\<close>

definition getDocumentWorkflow :: "js_engine \<Rightarrow> string option \<Rightarrow> string \<Rightarrow> workflow" where
  "getDocumentWorkflow js byteRules docType =
     (case byteRules_match js byteRules docType of
        Inl e \<Rightarrow> default_workflow docType
      | Inr None \<Rightarrow> default_workflow docType
      | Inr (Some sectionContent) \<Rightarrow> parse_section docType sectionContent)"

section \<open>Consistency analysis\<close>

text \<open>
  \<^verbatim>\<open>new Date("YYYY-MM-DD")\<close> on the ten characters the marker's pattern captured: the time
  value in milliseconds since the epoch, at midnight UTC, or \<open>None\<close> for an invalid date
  (\<^verbatim>\<open>NaN\<close>). As in V8, the runtime of the program, the month must be 1..12 and the day
  1..31; a day past the end of its month runs into the next month.
\<close>

definition digit_value :: "char \<Rightarrow> int" where
  "digit_value c = int (of_char c) - 48"

definition number_of :: "string \<Rightarrow> int" where
  "number_of s = foldl (\<lambda>n c. 10 * n + digit_value c) 0 s"

definition days_from_civil :: "int \<Rightarrow> int \<Rightarrow> int \<Rightarrow> int" where
  "days_from_civil y m d =
     (let y' = (if m \<le> 2 then y - 1 else y);
          era = y' div 400;
          yoe = y' - era * 400;
          doy = (153 * (if m > 2 then m - 3 else m + 9) + 2) div 5 + d - 1;
          doe = yoe * 365 + yoe div 4 - yoe div 100 + doy
      in era * 146097 + doe - 719468)"

definition msPerDay :: int where
  "msPerDay = 86400000"

definition Date_parse :: "string \<Rightarrow> int option" where
  "Date_parse s =
     (let year = number_of (take 4 s);
          month = number_of (take 2 (drop 5 s));
          day = number_of (take 2 (drop 8 s))
      in if 1 \<le> month \<and> month \<le> 12 \<and> 1 \<le> day \<and> day \<le> 31
         then Some (days_from_civil year month day * msPerDay) else None)"

text \<open>\<^verbatim>\<open>/Last Updated:\s*(\d{4}-\d{2}-\d{2})/\<close>\<close>

definition lastUpdated_re :: regex where
  "lastUpdated_re =
     [Lit ''Last Updated:'', Rep True 0 None is_space, GroupOpen,
      Rep True 4 (Some 4) is_digit, Lit ''-'', Rep True 2 (Some 2) is_digit, Lit ''-'',
      Rep True 2 (Some 2) is_digit, GroupClose]"

text \<open>
  The staleness flag. \<open>now\<close> is the time value of \<^verbatim>\<open>new Date()\<close>. \<^verbatim>\<open>setDate(getDate() - 30)\<close>
  moves the local calendar date back 30 days at the same local time of day; the model
  takes that as 30 times 24 hours (no change of the local UTC offset in between). A
  comparison with \<^verbatim>\<open>NaN\<close> is false.
\<close>

definition needsUpdate_of :: "int \<Rightarrow> string \<Rightarrow> bool" where
  "needsUpdate_of now content =
     (case re_search lastUpdated_re content of
        Some (before, matched, rest, Some g) \<Rightarrow>
          (let lastUpdated = Date_parse g;
               thirtyDaysAgo = now - 30 * msPerDay
           in case lastUpdated of None \<Rightarrow> False | Some t \<Rightarrow> t < thirtyDaysAgo)
      | _ \<Rightarrow> True)"

text \<open>\<^verbatim>\<open>new RegExp(`##\\s*${section}`, 'i')\<close>\<close>

definition heading_source :: "string \<Rightarrow> string" where
  "heading_source name = ''##'' @ [CHR 0x5C] @ ''s*'' @ name"

definition sectionRegex :: "js_engine \<Rightarrow> string \<Rightarrow> (string \<Rightarrow> js_match) option" where
  "sectionRegex js name =
     (if plain name then Some (re_search [Lit ''##'', Rep True 0 None is_space, LitI name])
      else js (heading_source name))"

text \<open>The loop over \<open>workflow.structure\<close> that collects \<open>missingSections\<close>; building a
  pattern can throw.\<close>

fun missing_loop :: "js_engine \<Rightarrow> string \<Rightarrow> string list \<Rightarrow> string list \<Rightarrow> js_error + string list" where
  "missing_loop js content [] missingSections = Inr missingSections"
| "missing_loop js content (name # rest) missingSections =
     (case sectionRegex js name of
        None \<Rightarrow> Inl SyntaxError
      | Some regex \<Rightarrow>
          missing_loop js content rest
            (if regex content = None then missingSections @ [name] else missingSections))"

text \<open>\<^verbatim>\<open>missingSections.join(', ')\<close>\<close>

fun js_join :: "string \<Rightarrow> string list \<Rightarrow> string" where
  "js_join sep [] = []"
| "js_join sep [x] = x"
| "js_join sep (x # y # ys) = x @ sep @ js_join sep (y # ys)"

datatype status = good | needs_update

record analysis =
  documentType :: string
  status :: status
  recommendation :: string

definition standard_documents :: "string list" where
  "standard_documents =
     [''projectbrief'', ''productContext'', ''systemPatterns'', ''techContext'', ''activeContext'',
      ''progress'']"

text \<open>The body of the loop for one standard document.\<close>

definition analyze_document ::
  "js_engine \<Rightarrow> int \<Rightarrow> string option \<Rightarrow> string \<Rightarrow> string \<Rightarrow> js_error + analysis" where
  "analyze_document js now byteRules docName content =
     (let wf = getDocumentWorkflow js byteRules docName in
      case missing_loop js content (structure' wf) [] of
        Inl e \<Rightarrow> Inl e
      | Inr missingSections \<Rightarrow>
          (let needsUpdate = needsUpdate_of now content in
           Inr (if length missingSections > 0
                then \<lparr>documentType = docName, status = needs_update,
                      recommendation = ''Missing sections: '' @ js_join '', '' missingSections\<rparr>
                else if needsUpdate
                then \<lparr>documentType = docName, status = needs_update,
                      recommendation = ''Document may need updating (last update over 30 days ago)''\<rparr>
                else \<lparr>documentType = docName, status = good,
                      recommendation = ''Document follows the structure defined in ByteRules''\<rparr>)))"

fun analyze_loop ::
  "js_engine \<Rightarrow> int \<Rightarrow> string option \<Rightarrow> (string \<times> string) list \<Rightarrow> analysis list \<Rightarrow> js_error + analysis list" where
  "analyze_loop js now byteRules [] results = Inr results"
| "analyze_loop js now byteRules ((docName, content) # docs) results =
     (if docName \<notin> set standard_documents then analyze_loop js now byteRules docs results
      else
        case analyze_document js now byteRules docName content of
          Inl e \<Rightarrow> Inl e
        | Inr r \<Rightarrow> analyze_loop js now byteRules docs (results @ [r]))"

text \<open>\<open>documents\<close> is what \<open>readAllDocuments\<close> returns, \<open>None\<close> when it throws. Every
  exception leaves the function as an \<^verbatim>\<open>Error\<close>.\<close>

definition analyzeDocumentConsistency ::
  "js_engine \<Rightarrow> int \<Rightarrow> string option \<Rightarrow> (string \<times> string) list option \<Rightarrow> js_error + analysis list" where
  "analyzeDocumentConsistency js now byteRules documents =
     (case documents of
        None \<Rightarrow> Inl ReadError
      | Some docs \<Rightarrow> analyze_loop js now byteRules docs [])"

section \<open>Specification-side notions for the analysis\<close>

text \<open>A required section is missing from a document when its heading pattern finds no
  match in the body.\<close>

definition section_missing :: "js_engine \<Rightarrow> string \<Rightarrow> string \<Rightarrow> bool" where
  "section_missing js content name =
     (case sectionRegex js name of Some regex \<Rightarrow> regex content = None | None \<Rightarrow> False)"

text \<open>The status policy, in priority order: missing sections first, then the staleness
  flag, then the good status.\<close>

definition expected_analysis ::
  "js_engine \<Rightarrow> int \<Rightarrow> string option \<Rightarrow> string \<times> string \<Rightarrow> analysis" where
  "expected_analysis js now byteRules x =
     (case x of (docName, content) \<Rightarrow>
        let missing = filter (section_missing js content)
                        (structure' (getDocumentWorkflow js byteRules docName))
        in if missing \<noteq> []
           then \<lparr>documentType = docName, status = needs_update,
                 recommendation = ''Missing sections: '' @ js_join '', '' missing\<rparr>
           else if needsUpdate_of now content
           then \<lparr>documentType = docName, status = needs_update,
                 recommendation = ''Document may need updating (last update over 30 days ago)''\<rparr>
           else \<lparr>documentType = docName, status = good,
                 recommendation = ''Document follows the structure defined in ByteRules''\<rparr>)"

text \<open>The documents that are analysed, and the condition under which every heading pattern
  of their required sections can be built.\<close>

definition standard :: "string \<times> string \<Rightarrow> bool" where
  "standard x = (fst x \<in> set standard_documents)"

definition patterns_ok :: "js_engine \<Rightarrow> string option \<Rightarrow> (string \<times> string) list \<Rightarrow> bool" where
  "patterns_ok js byteRules docs =
     list_all (\<lambda>x. list_all (\<lambda>name. sectionRegex js name \<noteq> None)
                      (structure' (getDocumentWorkflow js byteRules (fst x))))
       (filter standard docs)"

text \<open>An engine that rejects every pattern it is asked for (the sample names are plain, so
  it is never asked), a rules text with one section, and sample documents; \<open>sample_now\<close> is
  2024-03-01T00:00:00Z.\<close>

definition nojs :: js_engine where
  "nojs = (\<lambda>source. None)"

definition sample_rules :: string where
  "sample_rules = ''# Rules\<newline>\<newline>## Standard Document Types\<newline>\<newline>### 4. Tech Context (techContext.md)\<newline>- **Purpose**: Specifies technology stack\<newline>- **Structure**:\<newline>  - Stack\<newline>  - Setup\<newline>\<newline>## Standard Workflows\<newline>''"





definition sample_doc_invalid :: string where
  "sample_doc_invalid = ''# Tech\<newline>> Last Updated: 2024-31-12\<newline>\<newline>## Stack\<newline>x\<newline>\<newline>## setup\<newline>y''"

section \<open>Properties of the score\<close>

lemma matchCount_loop_eq:
  "matchCount_loop lowerText ts acc = acc + length (filter (str_includes lowerText) ts)"
  by (induction ts arbitrary: acc) auto

lemma length_filter_eq_iff: "length (filter P xs) = length xs \<longleftrightarrow> (\<forall>x\<in>set xs. P x)"
proof (induction xs)
  case Nil
  then show ?case by simp
next
  case (Cons x xs)
  show ?case
  proof (cases "P x")
    case True
    then show ?thesis using Cons by simp
  next
    case False
    have "length (filter P xs) \<noteq> Suc (length xs)"
      using length_filter_le [of P xs] by linarith
    then show ?thesis using False by simp
  qed
qed

lemma score_formula:
  "\<not> str_includes (toLowerCase text) (toLowerCase query) \<Longrightarrow>
   calculateRelevanceScore query ts text =
     (if ts = [] then 0
      else of_nat (length (filter (str_includes (toLowerCase text)) ts)) / of_nat (length ts)) * (8 / 10)
     + (if 2 \<le> length (filter (str_includes (toLowerCase text)) ts) then 2 / 10 else 0)"
  by (simp add: calculateRelevanceScore_def matchCount_loop_eq Let_def)

lemma score_exact:
  "str_includes (toLowerCase text) (toLowerCase query) \<Longrightarrow> calculateRelevanceScore query ts text = 1"
  by (simp add: calculateRelevanceScore_def)

lemma ratio_props:
  fixes m n :: nat and x :: rat
  assumes "m \<le> n" and "x = (if n = 0 then 0 else of_nat m / of_nat n)"
  shows "0 \<le> x" and "x \<le> 1" and "x = 1 \<longleftrightarrow> n \<noteq> 0 \<and> m = n"
proof -
  show "0 \<le> x" using assms by simp
  show "x \<le> 1" using assms by simp
  show "x = 1 \<longleftrightarrow> n \<noteq> 0 \<and> m = n"
  proof (cases "n = 0")
    case True
    then show ?thesis using assms by simp
  next
    case False
    have "m = n" if "(of_nat m :: rat) / of_nat n = 1"
    proof -
      from that False have "(of_nat m :: rat) = of_nat n" by simp
      then show ?thesis by (simp only: of_nat_eq_iff)
    qed
    moreover have "(of_nat m :: rat) / of_nat n = 1" if "m = n"
      using that False by simp
    ultimately have "(of_nat m :: rat) / of_nat n = 1 \<longleftrightarrow> m = n" by blast
    then show ?thesis using False assms by simp
  qed
qed

lemma score_upper: "calculateRelevanceScore query ts text \<le> 1"
proof (cases "str_includes (toLowerCase text) (toLowerCase query)")
  case True
  then show ?thesis by (simp add: score_exact)
next
  case False
  define m where "m = length (filter (str_includes (toLowerCase text)) ts)"
  define x :: rat where "x = (if length ts = 0 then 0 else of_nat m / of_nat (length ts))"
  have mn: "m \<le> length ts" unfolding m_def by simp
  note x = ratio_props [OF mn x_def]
  have sc: "calculateRelevanceScore query ts text = x * (8 / 10) + (if 2 \<le> m then 2 / 10 else 0)"
    unfolding x_def m_def using False by (simp add: score_formula)
  show ?thesis
  proof (cases "2 \<le> m")
    case True
    then have "calculateRelevanceScore query ts text = x * (8 / 10) + 2 / 10" using sc by simp
    then show ?thesis using x(2) by linarith
  next
    case False
    then have "calculateRelevanceScore query ts text = x * (8 / 10)" using sc by simp
    then show ?thesis using x(1,2) by linarith
  qed
qed

lemma score_one_iff:
  "calculateRelevanceScore query ts text = 1 \<longleftrightarrow>
     str_includes (toLowerCase text) (toLowerCase query)
     \<or> (2 \<le> length ts \<and> (\<forall>t\<in>set ts. str_includes (toLowerCase text) t))"
proof (cases "str_includes (toLowerCase text) (toLowerCase query)")
  case True
  then show ?thesis by (simp add: score_exact)
next
  case False
  define m where "m = length (filter (str_includes (toLowerCase text)) ts)"
  define x :: rat where "x = (if length ts = 0 then 0 else of_nat m / of_nat (length ts))"
  have mn: "m \<le> length ts" unfolding m_def by simp
  note x = ratio_props [OF mn x_def]
  have sc: "calculateRelevanceScore query ts text = x * (8 / 10) + (if 2 \<le> m then 2 / 10 else 0)"
    unfolding x_def m_def using False by (simp add: score_formula)
  have all: "(\<forall>t\<in>set ts. str_includes (toLowerCase text) t) \<longleftrightarrow> m = length ts"
    unfolding m_def by (simp add: length_filter_eq_iff)
  show ?thesis
  proof (cases "2 \<le> m")
    case True
    then have e: "calculateRelevanceScore query ts text = x * (8 / 10) + 2 / 10" using sc by simp
    have "calculateRelevanceScore query ts text = 1 \<longleftrightarrow> x = 1"
    proof
      assume "calculateRelevanceScore query ts text = 1"
      then show "x = 1" using e by linarith
    next
      assume "x = 1"
      then show "calculateRelevanceScore query ts text = 1" using e by simp
    qed
    also have "x = 1 \<longleftrightarrow> m = length ts" using x(3) True by linarith
    also have "m = length ts \<longleftrightarrow> 2 \<le> length ts \<and> m = length ts" using True by linarith
    finally show ?thesis using False all by simp
  next
    case small: False
    then have "calculateRelevanceScore query ts text = x * (8 / 10)" using sc by simp
    then have "calculateRelevanceScore query ts text \<noteq> 1" using x(2) by linarith
    moreover have "\<not> (2 \<le> length ts \<and> m = length ts)" using small by linarith
    ultimately show ?thesis using False all by simp
  qed
qed

section \<open>Properties of the search\<close>

text \<open>The loops push exactly the hits of the paragraphs above the threshold, in
  encounter order.\<close>

lemma paragraphs_loop_eq:
  "paragraphs_loop query (queryTerms_of query) docType title ps results =
     results @ map (hit_of query) (filter (above_threshold query) (map (\<lambda>p. (docType, title, p)) ps))"
  by (induction ps arbitrary: results) (simp_all add: hit_of_def above_threshold_def Let_def)

lemma sections_loop_eq:
  "sections_loop query (queryTerms_of query) docType secs results =
     results @ map (hit_of query) (filter (above_threshold query)
        (concat (map (section_paragraphs docType) secs)))"
  by (induction secs arbitrary: results) (simp_all add: paragraphs_loop_eq section_paragraphs_def)

lemma documents_loop_eq:
  "documents_loop query (queryTerms_of query) documents results =
     results @ map (hit_of query) (filter (above_threshold query) (encounter_order documents))"
  by (induction documents arbitrary: results) (auto simp: sections_loop_eq encounter_order_def)

lemma search_eq:
  "performAdvancedSearch query documents =
     take 5 (sort_key (\<lambda>r. - relevanceScore r)
       (map (hit_of query) (filter (above_threshold query) (encounter_order documents))))"
  by (simp add: performAdvancedSearch_def documents_loop_eq)

lemma search_subset:
  "set (performAdvancedSearch query documents)
     \<subseteq> hit_of query ` {x \<in> set (encounter_order documents). above_threshold query x}"
proof -
  have "set (performAdvancedSearch query documents)
      \<subseteq> set (sort_key (\<lambda>r. - relevanceScore r)
         (map (hit_of query) (filter (above_threshold query) (encounter_order documents))))"
    unfolding search_eq by (rule set_take_subset)
  then show ?thesis by auto
qed

lemma hit_score:
  "above_threshold query x \<Longrightarrow>
     3 / 10 < relevanceScore (hit_of query x) \<and> relevanceScore (hit_of query x) \<le> 1"
  by (cases x) (simp add: above_threshold_def hit_of_def score_upper)

text \<open>
  A score of 1 without the phrase: the query \<open>foo bar\<close> on the paragraph \<open>bar foo\<close>. Both
  terms occur, so the score is (2/2) * 0.8 + 0.2 = 1, and the paragraph does not contain
  the query. (In double arithmetic 0.8 + 0.2 is 1.0 as well.)
\<close>

theorem C1_counterexample:
  "calculateRelevanceScore ''foo bar'' (queryTerms_of ''foo bar'') ''bar foo'' = 1
   \<and> \<not> str_includes (toLowerCase ''bar foo'') (toLowerCase ''foo bar'')"
  by code_simp

text \<open>
  Claim C1, amended. Every hit that the search returns has a score in (0, 1]. A
  paragraph that contains the lower-cased query scores 1, but the converse fails: the
  score is 1 exactly when the paragraph contains the query, or the term list has at least
  two entries and every one of them occurs in the paragraph.
\<close>

theorem C1_score_range:
  "(\<forall>h \<in> set (performAdvancedSearch query documents).
       0 < relevanceScore h \<and> relevanceScore h \<le> 1)
   \<and> (calculateRelevanceScore query (queryTerms_of query) paragraph = 1 \<longleftrightarrow>
        str_includes (toLowerCase paragraph) (toLowerCase query)
        \<or> (2 \<le> length (queryTerms_of query)
            \<and> (\<forall>t \<in> set (queryTerms_of query). str_includes (toLowerCase paragraph) t)))"
proof
  show "\<forall>h \<in> set (performAdvancedSearch query documents).
       0 < relevanceScore h \<and> relevanceScore h \<le> 1"
  proof
    fix h assume "h \<in> set (performAdvancedSearch query documents)"
    then obtain x where "above_threshold query x" and "h = hit_of query x"
      using search_subset by blast
    then show "0 < relevanceScore h \<and> relevanceScore h \<le> 1"
      using hit_score [of query x] by simp
  qed
  show "calculateRelevanceScore query (queryTerms_of query) paragraph = 1 \<longleftrightarrow>
        str_includes (toLowerCase paragraph) (toLowerCase query)
        \<or> (2 \<le> length (queryTerms_of query)
            \<and> (\<forall>t \<in> set (queryTerms_of query). str_includes (toLowerCase paragraph) t))"
    by (rule score_one_iff)
qed

theorem C1_score_range_witness:
  "performAdvancedSearch ''alpha beta'' [(''notes'', ''beta then alpha'')] \<noteq> []
   \<and> 0 < relevanceScore (hd (performAdvancedSearch ''alpha beta'' [(''notes'', ''beta then alpha'')]))
   \<and> relevanceScore (hd (performAdvancedSearch ''alpha beta'' [(''notes'', ''beta then alpha'')])) \<le> 1
   \<and> \<not> str_includes (toLowerCase ''beta then alpha'') (toLowerCase ''alpha beta'')
   \<and> calculateRelevanceScore ''alpha beta'' (queryTerms_of ''alpha beta'') ''beta then alpha'' = 1"
proof -
  let ?r = "performAdvancedSearch ''alpha beta'' [(''notes'', ''beta then alpha'')]"
  have ne: "?r \<noteq> []" by code_simp
  then have mem: "hd ?r \<in> set ?r" by simp
  have no: "\<not> str_includes (toLowerCase ''beta then alpha'') (toLowerCase ''alpha beta'')"
    by code_simp
  have all: "2 \<le> length (queryTerms_of ''alpha beta'')
      \<and> (\<forall>t \<in> set (queryTerms_of ''alpha beta''). str_includes (toLowerCase ''beta then alpha'') t)"
    by code_simp
  note t = C1_score_range [of "''alpha beta''" "[(''notes'', ''beta then alpha'')]" "''beta then alpha''"]
  from t mem have "0 < relevanceScore (hd ?r) \<and> relevanceScore (hd ?r) \<le> 1" by blast
  moreover from t all
  have "calculateRelevanceScore ''alpha beta'' (queryTerms_of ''alpha beta'') ''beta then alpha'' = 1"
    by blast
  ultimately show ?thesis using ne no by blast
qed

text \<open>
  The source counts every entry of the term list, a repeated term once for each of its
  occurrences in the list. The query \<open>foo foo\<close> gives the terms \<open>foo, foo\<close>; on the
  paragraph \<open>foo\<close> the source counts 2 and scores 1, where counting distinct terms gives
  1 and the score 0.4.
\<close>

theorem C2_counterexample:
  "\<not> str_includes (toLowerCase ''foo'') (toLowerCase ''foo foo'')
   \<and> calculateRelevanceScore ''foo foo'' (queryTerms_of ''foo foo'') ''foo'' = 1
   \<and> spec_score (queryTerms_of ''foo foo'') ''foo'' = 2 / 5"
  by code_simp

text \<open>
  Claim C2, amended. When the lower-cased paragraph does not contain the lower-cased
  query, the score is (matchCount / len(terms)) * 0.8 + proximityFactor, where matchCount
  is the number of entries of the term list (a repeated term counted each time) that occur
  in the lower-cased paragraph, the ratio is 0 for the empty list, and proximityFactor is
  0.2 when matchCount is at least 2 and 0 otherwise.
\<close>

theorem C2_score_formula:
  "\<not> str_includes (toLowerCase paragraph) (toLowerCase query) \<Longrightarrow>
   calculateRelevanceScore query ts paragraph =
     (if ts = [] then 0
      else of_nat (length (filter (str_includes (toLowerCase paragraph)) ts)) / of_nat (length ts))
       * (8 / 10)
     + (if 2 \<le> length (filter (str_includes (toLowerCase paragraph)) ts) then 2 / 10 else 0)"
proof -
  assume no: "\<not> str_includes (toLowerCase paragraph) (toLowerCase query)"
  have count: "matchCount_loop (toLowerCase paragraph) ts 0
      = length (filter (str_includes (toLowerCase paragraph)) ts)"
    by (simp add: matchCount_loop_eq)
  have ratio: "(if length ts > 0
        then (of_nat (length (filter (str_includes (toLowerCase paragraph)) ts)) :: rat)
               / of_nat (length ts) else 0)
      = (if ts = [] then 0
         else of_nat (length (filter (str_includes (toLowerCase paragraph)) ts)) / of_nat (length ts))"
    by simp
  show ?thesis
    unfolding calculateRelevanceScore_def Let_def count ratio using no by simp
qed

theorem C2_score_formula_witness:
  "\<not> str_includes (toLowerCase ''Beta and alpha'') (toLowerCase ''alpha beta gamma'')
   \<and> queryTerms_of ''alpha beta gamma'' = [''alpha'', ''beta'', ''gamma'']
   \<and> calculateRelevanceScore ''alpha beta gamma'' (queryTerms_of ''alpha beta gamma'') ''Beta and alpha''
       = 11 / 15"
proof -
  have no: "\<not> str_includes (toLowerCase ''Beta and alpha'') (toLowerCase ''alpha beta gamma'')"
    by code_simp
  have ts: "queryTerms_of ''alpha beta gamma'' = [''alpha'', ''beta'', ''gamma'']"
    by code_simp
  have f: "filter (str_includes (toLowerCase ''Beta and alpha'')) [''alpha'', ''beta'', ''gamma'']
      = [''alpha'', ''beta'']"
    by code_simp
  from C2_score_formula [OF no, of "queryTerms_of ''alpha beta gamma''"]
  have "calculateRelevanceScore ''alpha beta gamma'' (queryTerms_of ''alpha beta gamma'') ''Beta and alpha''
       = 11 / 15"
    unfolding ts f by simp
  then show ?thesis using no ts by blast
qed

lemma prefix_filter_take: "prefix (filter P (take n xs)) (filter P xs)"
proof -
  have "filter P xs = filter P (take n xs) @ filter P (drop n xs)"
    by (metis append_take_drop_id filter_append)
  then show ?thesis by (simp add: prefix_def)
qed

lemma sorted_desc:
  "sorted_wrt (\<lambda>a b. relevanceScore a \<ge> relevanceScore b) (sort_key (\<lambda>r. - relevanceScore r) xs)"
proof -
  have "sorted (map (\<lambda>r. - relevanceScore r) (sort_key (\<lambda>r. - relevanceScore r) xs))"
    by (rule sorted_sort_key)
  then show ?thesis by (simp add: sorted_wrt_map)
qed

lemma ties_stable:
  "filter (\<lambda>r. relevanceScore r = k) (sort_key (\<lambda>r. - relevanceScore r) xs)
     = filter (\<lambda>r. relevanceScore r = k) xs"
  using sort_key_stable [of "\<lambda>r. - relevanceScore r" "- k" xs] by simp

text \<open>
  Claim C3. The search returns at most 5 hits, in non-increasing order of score; the hits
  of any one score appear in encounter order (they are a prefix of the hits of that score
  in encounter order). The result is a function of the query and of the list of
  entries, so it is deterministic.
\<close>

theorem C3_top_five_sorted_stable:
  "length (performAdvancedSearch query documents) \<le> 5
   \<and> sorted_wrt (\<lambda>a b. relevanceScore a \<ge> relevanceScore b) (performAdvancedSearch query documents)
   \<and> (\<forall>k. prefix (filter (\<lambda>r. relevanceScore r = k) (performAdvancedSearch query documents))
             (filter (\<lambda>r. relevanceScore r = k)
                (map (hit_of query) (filter (above_threshold query) (encounter_order documents)))))"
proof (intro conjI allI)
  show "length (performAdvancedSearch query documents) \<le> 5"
    by (simp add: search_eq)
  show "sorted_wrt (\<lambda>a b. relevanceScore a \<ge> relevanceScore b) (performAdvancedSearch query documents)"
    unfolding search_eq by (rule sorted_wrt_take [OF sorted_desc])
  fix k
  let ?hits = "map (hit_of query) (filter (above_threshold query) (encounter_order documents))"
  have "prefix (filter (\<lambda>r. relevanceScore r = k) (take 5 (sort_key (\<lambda>r. - relevanceScore r) ?hits)))
       (filter (\<lambda>r. relevanceScore r = k) (sort_key (\<lambda>r. - relevanceScore r) ?hits))"
    by (rule prefix_filter_take)
  then show "prefix (filter (\<lambda>r. relevanceScore r = k) (performAdvancedSearch query documents))
             (filter (\<lambda>r. relevanceScore r = k) ?hits)"
    by (simp only: search_eq ties_stable)
qed

theorem C3_top_five_sorted_stable_witness:
  "map (\<lambda>r. (SearchResult.documentType r, relevanceScore r))
     (performAdvancedSearch ''alpha beta''
        [(''a'', ''alpha\<newline>\<newline>alpha beta\<newline>\<newline>beta''),
         (''b'', ''alpha beta x\<newline>\<newline>alpha y\<newline>\<newline>beta z\<newline>\<newline>alpha w'')])
     = [(''a'', 1), (''b'', 1), (''a'', 2 / 5), (''a'', 2 / 5), (''b'', 2 / 5)]
   \<and> length (performAdvancedSearch ''alpha beta''
        [(''a'', ''alpha\<newline>\<newline>alpha beta\<newline>\<newline>beta''),
         (''b'', ''alpha beta x\<newline>\<newline>alpha y\<newline>\<newline>beta z\<newline>\<newline>alpha w'')]) \<le> 5"
proof -
  have "map (\<lambda>r. (SearchResult.documentType r, relevanceScore r))
     (performAdvancedSearch ''alpha beta''
        [(''a'', ''alpha\<newline>\<newline>alpha beta\<newline>\<newline>beta''),
         (''b'', ''alpha beta x\<newline>\<newline>alpha y\<newline>\<newline>beta z\<newline>\<newline>alpha w'')])
     = [(''a'', 1), (''b'', 1), (''a'', 2 / 5), (''a'', 2 / 5), (''b'', 2 / 5)]"
    by code_simp
  then show ?thesis
    using C3_top_five_sorted_stable [of "''alpha beta''"
        "[(''a'', ''alpha\<newline>\<newline>alpha beta\<newline>\<newline>beta''),
         (''b'', ''alpha beta x\<newline>\<newline>alpha y\<newline>\<newline>beta z\<newline>\<newline>alpha w'')]"]
    by blast
qed



lemma search_nonempty:
  assumes "x \<in> set (encounter_order documents)" and "above_threshold query x"
  shows "performAdvancedSearch query documents \<noteq> []"
proof -
  let ?hits = "map (hit_of query) (filter (above_threshold query) (encounter_order documents))"
  have "x \<in> set (filter (above_threshold query) (encounter_order documents))"
    using assms by simp
  then have "filter (above_threshold query) (encounter_order documents) \<noteq> []"
    by (metis empty_iff list.set(1))
  then have "?hits \<noteq> []" by simp
  then have "length (sort_key (\<lambda>r. - relevanceScore r) ?hits) \<noteq> 0" by simp
  then have "take 5 (sort_key (\<lambda>r. - relevanceScore r) ?hits) \<noteq> []"
    by (simp del: length_sort length_map length_0_conv add: take_eq_Nil)
  then show ?thesis unfolding search_eq .
qed

text \<open>
  Claim C10. When every white-space token of the lower-cased query has length at most 2,
  the term list is empty; a paragraph that contains the lower-cased query still scores 1
  (the exact-phrase test comes first), and a corpus with such a paragraph gives a
  non-empty search result.
\<close>

theorem C10_exact_phrase_without_terms:
  assumes "\<forall>t \<in> set (js_split [Rep True 1 None is_space] (toLowerCase query)). length t \<le> 2"
    and "str_includes (toLowerCase paragraph) (toLowerCase query)"
  shows "queryTerms_of query = []
    \<and> calculateRelevanceScore query (queryTerms_of query) paragraph = 1
    \<and> ((docType, title, paragraph) \<in> set (encounter_order documents)
         \<longrightarrow> performAdvancedSearch query documents \<noteq> [])"
proof (intro conjI impI)
  show "queryTerms_of query = []"
    using assms(1) by (auto simp: queryTerms_of_def filter_empty_conv)
  show s: "calculateRelevanceScore query (queryTerms_of query) paragraph = 1"
    using assms(2) by (rule score_exact)
  assume m: "(docType, title, paragraph) \<in> set (encounter_order documents)"
  have "above_threshold query (docType, title, paragraph)"
    by (simp add: above_threshold_def s)
  with m show "performAdvancedSearch query documents \<noteq> []"
    by (rule search_nonempty)
qed

theorem C10_exact_phrase_without_terms_witness:
  "queryTerms_of ''to do'' = []
   \<and> calculateRelevanceScore ''to do'' (queryTerms_of ''to do'') ''Things To Do today'' = 1
   \<and> map relevanceScore
       (performAdvancedSearch ''to do'' [(''activeContext'', ''## Plan\<newline>\<newline>Things To Do today'')]) = [1]"
proof -
  have h1: "\<forall>t \<in> set (js_split [Rep True 1 None is_space] (toLowerCase ''to do'')). length t \<le> 2"
    by code_simp
  have h2: "str_includes (toLowerCase ''Things To Do today'') (toLowerCase ''to do'')"
    by code_simp
  have r: "map relevanceScore
       (performAdvancedSearch ''to do'' [(''activeContext'', ''## Plan\<newline>\<newline>Things To Do today'')]) = [1]"
    by code_simp
  from C10_exact_phrase_without_terms [OF h1 h2] r show ?thesis by blast
qed

section \<open>Properties of the snippet\<close>

lemma adjust_start_le: "adjust_start text s \<le> s"
  by (induction "text" s rule: adjust_start.induct) (subst adjust_start.simps, auto)

lemma adjust_start_boundary:
  "adjust_start text s = 0 \<or> is_boundary (char_at text (adjust_start text s))"
  by (induction "text" s rule: adjust_start.induct)
     (subst (1 2) adjust_start.simps, auto simp: is_boundary_def)

lemma adjust_start_nearest:
  "adjust_start text s < i \<Longrightarrow> i \<le> s \<Longrightarrow> \<not> is_boundary (char_at text i)"
proof (induction "text" s rule: adjust_start.induct)
  case (1 t startPos)
  show ?case
  proof (cases "startPos > 0 \<and> char_at t startPos \<noteq> Some (CHR '' '')
         \<and> char_at t startPos \<noteq> Some newline")
    case True
    then have eq: "adjust_start t startPos = adjust_start t (startPos - 1)"
      by (subst adjust_start.simps) auto
    show ?thesis
    proof (cases "i = startPos")
      case True
      then show ?thesis using \<open>startPos > 0 \<and> _\<close> by (simp add: is_boundary_def)
    next
      case False
      then have "i \<le> startPos - 1" using "1.prems" by simp
      then show ?thesis using "1.IH" True "1.prems" eq by simp
    qed
  next
    case False
    then have "adjust_start t startPos = startPos"
      by (subst adjust_start.simps) auto
    then show ?thesis using "1.prems" by simp
  qed
qed

lemma adjust_end_ge: "e \<le> adjust_end text e"
  by (induction "text" e rule: adjust_end.induct) (subst adjust_end.simps, auto)

lemma adjust_end_le: "e \<le> length text \<Longrightarrow> adjust_end text e \<le> length text"
  by (induction "text" e rule: adjust_end.induct) (subst adjust_end.simps, auto)

lemma adjust_end_boundary:
  "e \<le> length text \<Longrightarrow>
   adjust_end text e = length text \<or> is_boundary (char_at text (adjust_end text e))"
  by (induction "text" e rule: adjust_end.induct)
     (subst (1 2) adjust_end.simps, auto simp: is_boundary_def)

lemma adjust_end_nearest:
  "e \<le> i \<Longrightarrow> i < adjust_end text e \<Longrightarrow> \<not> is_boundary (char_at text i)"
proof (induction "text" e rule: adjust_end.induct)
  case (1 t endPos)
  show ?case
  proof (cases "endPos < length t \<and> char_at t endPos \<noteq> Some (CHR '' '')
         \<and> char_at t endPos \<noteq> Some newline")
    case True
    then have eq: "adjust_end t endPos = adjust_end t (endPos + 1)"
      by (subst adjust_end.simps) auto
    show ?thesis
    proof (cases "i = endPos")
      case True
      then show ?thesis using \<open>endPos < length t \<and> _\<close> by (simp add: is_boundary_def)
    next
      case False
      then have "endPos + 1 \<le> i" using "1.prems" by simp
      then show ?thesis using "1.IH" True "1.prems" eq by simp
    qed
  next
    case False
    then have "adjust_end t endPos = endPos"
      by (subst adjust_end.simps) auto
    then show ?thesis using "1.prems" by simp
  qed
qed

lemma find_best_bound:
  "bp = 0 \<or> bp < length lt \<Longrightarrow>
   find_best lt ts i bp bc = 0 \<or> find_best lt ts i bp bc < length lt"
proof (induction lt ts i bp bc rule: find_best.induct)
  case (1 lowerText queryTerms i bestPosition bestTermCount)
  show ?case
  proof (cases "i < length lowerText")
    case True
    show ?thesis
    proof (cases "termCount_loop (substring lowerText i (i + 100)) queryTerms 0 > bestTermCount")
      case better: True
      then have "find_best lowerText queryTerms i bestPosition bestTermCount
          = find_best lowerText queryTerms (i + 1) i
              (termCount_loop (substring lowerText i (i + 100)) queryTerms 0)"
        using True by (subst find_best.simps) (simp add: Let_def)
      then show ?thesis using "1.IH"(1) [OF True refl better] True by simp
    next
      case worse: False
      then have "find_best lowerText queryTerms i bestPosition bestTermCount
          = find_best lowerText queryTerms (i + 1) bestPosition bestTermCount"
        using True by (subst find_best.simps) (simp add: Let_def)
      then show ?thesis using "1.IH"(2) [OF True refl worse] "1.prems" by simp
    qed
  next
    case False
    then have "find_best lowerText queryTerms i bestPosition bestTermCount = bestPosition"
      by (subst find_best.simps) simp
    then show ?thesis using "1.prems" by simp
  qed
qed

lemma bestPosition_bound:
  "bestPosition_of text ts = 0 \<or> bestPosition_of text ts < length text"
  using find_best_bound [of 0 "toLowerCase text" ts 0 0]
  by (simp add: bestPosition_of_def toLowerCase_def)

lemma is_boundary_space: "is_boundary (Some c) \<Longrightarrow> is_space c"
  by (auto simp: is_boundary_def is_space_def newline_def)

lemma substring_take_drop: "a \<le> b \<Longrightarrow> b \<le> length s \<Longrightarrow> substring s a b = take (b - a) (drop a s)"
  by (simp add: substring_def Let_def min_def max_def)

lemma trim_decomp:
  "w = takeWhile is_space w @ trim w @ rev (takeWhile is_space (rev (dropWhile is_space w)))"
proof -
  let ?d = "dropWhile is_space w"
  have "rev (rev ?d) = rev (takeWhile is_space (rev ?d) @ dropWhile is_space (rev ?d))"
    by (simp only: takeWhile_dropWhile_id)
  then have "?d = rev (dropWhile is_space (rev ?d)) @ rev (takeWhile is_space (rev ?d))"
    by (simp only: rev_append rev_rev_ident)
  then have "?d = trim w @ rev (takeWhile is_space (rev ?d))"
    by (simp only: trim_def)
  moreover have "w = takeWhile is_space w @ ?d" by simp
  ultimately show ?thesis by simp
qed

lemma window_char:
  assumes "s \<le> e" "e \<le> length doc" "i < e - s"
  shows "char_at doc (s + i) = Some (substring doc s e ! i)"
  using assms by (simp add: substring_take_drop char_at_def)

lemma trim_window:
  fixes doc :: string
  assumes se: "s \<le> e" and el: "e \<le> length doc"
    and sb: "s = 0 \<or> is_boundary (char_at doc s)"
    and eb: "e = length doc \<or> is_boundary (char_at doc e)"
    and ne: "s < e \<or> s = 0"
    and w: "w = substring doc s e"
    and p: "p = s + length (takeWhile is_space w)"
    and q: "q = p + length (trim w)"
  shows "q \<le> e"
    and "substring doc p q = trim w"
    and "p = 0 \<or> (\<exists>c. char_at doc (p - 1) = Some c \<and> is_space c)"
    and "q = length doc \<or> (\<exists>c. char_at doc q = Some c \<and> is_space c)"
proof -
  define l where "l = takeWhile is_space w"
  define r where "r = rev (takeWhile is_space (rev (dropWhile is_space w)))"
  have dec: "w = l @ trim w @ r" unfolding l_def r_def by (rule trim_decomp)
  have lw: "length w = e - s" using se el by (simp add: w substring_take_drop)
  have len: "length l + length (trim w) + length r = e - s"
    using lw dec by (metis length_append add.assoc)
  have pl: "p = s + length l" by (simp add: p l_def)
  show qe: "q \<le> e" using len se by (simp add: q pl)
  have lsp: "\<forall>c \<in> set l. is_space c" unfolding l_def by (auto dest: set_takeWhileD)
  have rsp: "\<forall>c \<in> set r. is_space c" unfolding r_def by (auto dest: set_takeWhileD)
  have wtd: "w = take (e - s) (drop s doc)" using se el by (simp add: w substring_take_drop)
  have "substring doc p q = take (q - p) (drop p doc)"
    using qe el by (simp add: substring_take_drop q)
  also have "drop p doc = drop (length l) (drop s doc)" by (simp add: pl add.commute)
  also have "take (q - p) (drop (length l) (drop s doc))
      = take (length (trim w)) (drop (length l) (take (e - s) (drop s doc)))"
    using len by (simp add: q drop_take)
  also have "\<dots> = take (length (trim w)) (drop (length l) w)" by (simp only: wtd [symmetric])
  also have "\<dots> = trim w" by (subst dec) simp
  finally show "substring doc p q = trim w" .
  show "p = 0 \<or> (\<exists>c. char_at doc (p - 1) = Some c \<and> is_space c)"
  proof (cases "l = []")
    case True
    then have ps: "p = s" by (simp add: pl)
    show ?thesis
    proof (cases "s = 0")
      case True
      then show ?thesis using ps by simp
    next
      case False
      then have lt: "s < e" and b: "is_boundary (char_at doc s)" using ne sb by auto
      then have "0 < e - s" by simp
      from window_char [OF se el this] have c: "char_at doc s = Some (w ! 0)" by (simp add: w)
      have "w \<noteq> []" using lw lt by auto
      then have "w = hd w # tl w" by simp
      moreover have "is_space (w ! 0)" using b c is_boundary_space by simp
      ultimately have "takeWhile is_space w \<noteq> []"
        by (metis hd_conv_nth list.distinct(1) takeWhile.simps(2) \<open>w \<noteq> []\<close>)
      then show ?thesis using True by (simp add: l_def)
    qed
  next
    case False
    define i where "i = length l - 1"
    have il: "i < length l" using False by (simp add: i_def)
    then have iw: "i < e - s" using len by simp
    have "w ! i = l ! i" using il by (subst dec) (simp add: nth_append)
    then have sp: "is_space (w ! i)" using lsp il by simp
    have "char_at doc (s + i) = Some (w ! i)" using window_char [OF se el iw] by (simp add: w)
    moreover have "p - 1 = s + i" using False by (cases l) (simp_all add: pl i_def)
    ultimately show ?thesis using sp by simp
  qed
  show "q = length doc \<or> (\<exists>c. char_at doc q = Some c \<and> is_space c)"
  proof (cases "r = []")
    case True
    then have "q = e" using len se by (simp add: q pl)
    then show ?thesis using eb is_boundary_space
      by (cases "char_at doc e") (auto simp: is_boundary_def)
  next
    case False
    define i where "i = length l + length (trim w)"
    have "0 < length r" using False by simp
    then have iw: "i < e - s" using len unfolding i_def by linarith
    have "w ! i = r ! 0" by (subst dec) (simp add: nth_append i_def)
    moreover have "r ! 0 \<in> set r" using False by simp
    ultimately have sp: "is_space (w ! i)" using rsp by simp
    have "char_at doc (s + i) = Some (w ! i)" using window_char [OF se el iw] by (simp add: w)
    moreover have "q = s + i" by (simp add: q pl i_def)
    ultimately show ?thesis using sp by simp
  qed
qed

lemma window_facts:
  fixes doc :: string and ts :: "string list"
  defines "b \<equiv> bestPosition_of doc ts"
  defines "s \<equiv> startPos_of doc ts" and "e \<equiv> endPos_of doc ts"
  shows "s \<le> b - 30" and "min (length doc) (b + 120) \<le> e" and "e \<le> length doc"
    and "s = 0 \<or> is_boundary (char_at doc s)"
    and "e = length doc \<or> is_boundary (char_at doc e)"
    and "s \<le> e" and "s < e \<or> s = 0"
    and "\<And>i. s < i \<Longrightarrow> i \<le> b - 30 \<Longrightarrow> \<not> is_boundary (char_at doc i)"
    and "\<And>i. min (length doc) (b + 120) \<le> i \<Longrightarrow> i < e \<Longrightarrow> \<not> is_boundary (char_at doc i)"
proof -
  have s: "s = adjust_start doc (b - 30)"
    by (simp add: s_def startPos_of_def snippet_window_def b_def Let_def)
  have e: "e = adjust_end doc (min (length doc) (b + 120))"
    by (simp add: e_def endPos_of_def snippet_window_def b_def Let_def MAX_SNIPPET_LENGTH_def
        add.commute)
  have bb: "b = 0 \<or> b < length doc" unfolding b_def by (rule bestPosition_bound)
  show 1: "s \<le> b - 30" unfolding s by (rule adjust_start_le)
  show 2: "min (length doc) (b + 120) \<le> e" unfolding e by (rule adjust_end_ge)
  show "e \<le> length doc" unfolding e by (rule adjust_end_le) simp
  show "s = 0 \<or> is_boundary (char_at doc s)" unfolding s by (rule adjust_start_boundary)
  show "e = length doc \<or> is_boundary (char_at doc e)"
    unfolding e by (rule adjust_end_boundary) simp
  show "s \<le> e" using 1 2 bb by auto
  show "s < e \<or> s = 0" using 1 2 bb by auto
  show "\<And>i. s < i \<Longrightarrow> i \<le> b - 30 \<Longrightarrow> \<not> is_boundary (char_at doc i)"
    unfolding s by (rule adjust_start_nearest)
  show "\<And>i. min (length doc) (b + 120) \<le> i \<Longrightarrow> i < e \<Longrightarrow> \<not> is_boundary (char_at doc i)"
    unfolding e by (rule adjust_end_nearest)
qed

lemma snippet_window_pair: "snippet_window doc ts = (startPos_of doc ts, endPos_of doc ts)"
  by (simp add: startPos_of_def endPos_of_def)

lemma body_facts:
  fixes doc :: string
  shows "body_end doc ts \<le> endPos_of doc ts"
    and "substring doc (body_start doc ts) (body_end doc ts) = snippet_body doc ts"
    and "body_start doc ts = 0
         \<or> (\<exists>c. char_at doc (body_start doc ts - 1) = Some c \<and> is_space c)"
    and "body_end doc ts = length doc
         \<or> (\<exists>c. char_at doc (body_end doc ts) = Some c \<and> is_space c)"
proof -
  let ?s = "startPos_of doc ts" and ?e = "endPos_of doc ts"
  let ?w = "substring doc ?s ?e"
  have p: "body_start doc ts = ?s + length (takeWhile is_space ?w)"
    by (simp add: body_start_def snippet_window_pair)
  have sb: "snippet_body doc ts = trim ?w"
    by (simp add: snippet_body_def snippet_window_pair)
  have q: "body_end doc ts = body_start doc ts + length (trim ?w)"
    by (simp add: body_end_def sb)
  note t = trim_window [OF window_facts(6) window_facts(3) window_facts(4) window_facts(5)
      window_facts(7) refl p q]
  show "body_end doc ts \<le> endPos_of doc ts" by (rule t(1))
  show "substring doc (body_start doc ts) (body_end doc ts) = snippet_body doc ts"
    unfolding sb by (rule t(2))
  show "body_start doc ts = 0
         \<or> (\<exists>c. char_at doc (body_start doc ts - 1) = Some c \<and> is_space c)"
    by (rule t(3))
  show "body_end doc ts = length doc
         \<or> (\<exists>c. char_at doc (body_end doc ts) = Some c \<and> is_space c)"
    by (rule t(4))
qed

lemma snippet_assembly:
  "extractRelevantSnippet doc ts title =
     (if title \<noteq> [] then ''**'' @ title @ ''**: '' else [])
     @ (if startPos_of doc ts > 0 then ''...'' else [])
     @ snippet_body doc ts
     @ (if endPos_of doc ts < length doc then ''...'' else [])"
  by (simp add: extractRelevantSnippet_def snippet_body_def snippet_window_pair Let_def)

text \<open>
  A paragraph that starts with a TAB: \<^verbatim>\<open>trim()\<close> strips the TAB, so the snippet starts at
  offset 1 and the character before it is the TAB, which is neither a space nor a newline
  nor out of bounds.
\<close>

theorem C8_counterexample:
  "extractRelevantSnippet (CHR 0x09 # ''install the package'') [''install''] [] = ''install the package''
   \<and> snippet_body (CHR 0x09 # ''install the package'') [''install''] = ''install the package''
   \<and> body_start (CHR 0x09 # ''install the package'') [''install''] = 1
   \<and> char_at (CHR 0x09 # ''install the package'') 0 = Some (CHR 0x09)
   \<and> \<not> is_boundary (Some (CHR 0x09))"
  by code_simp

text \<open>
  Claim C8, amended. The snippet text is the paragraph's substring from \<open>body_start\<close> to
  \<open>body_end\<close>. The character before it and the character after it are white space (a
  character that \<^verbatim>\<open>trim()\<close> strips: space, newline, TAB, CR, ...) or out of the
  paragraph's bounds, so no word is split. The window starts 30 characters before the best
  offset and ends 120 after it (150 in all), each end then moved outwards to the nearest
  space or newline, or to the paragraph's end; the snippet is the trimmed window with the
  ellipses and the title label.
\<close>

theorem C8_snippet_boundaries:
  "substring doc (body_start doc ts) (body_end doc ts) = snippet_body doc ts
   \<and> (body_start doc ts = 0
        \<or> (\<exists>c. char_at doc (body_start doc ts - 1) = Some c \<and> is_space c))
   \<and> (body_end doc ts = length doc
        \<or> (\<exists>c. char_at doc (body_end doc ts) = Some c \<and> is_space c))
   \<and> startPos_of doc ts \<le> bestPosition_of doc ts - 30
   \<and> min (length doc) (bestPosition_of doc ts + 120) \<le> endPos_of doc ts
   \<and> endPos_of doc ts \<le> length doc
   \<and> (startPos_of doc ts = 0 \<or> is_boundary (char_at doc (startPos_of doc ts)))
   \<and> (endPos_of doc ts = length doc \<or> is_boundary (char_at doc (endPos_of doc ts)))
   \<and> (\<forall>i. startPos_of doc ts < i \<and> i \<le> bestPosition_of doc ts - 30
          \<longrightarrow> \<not> is_boundary (char_at doc i))
   \<and> (\<forall>i. min (length doc) (bestPosition_of doc ts + 120) \<le> i \<and> i < endPos_of doc ts
          \<longrightarrow> \<not> is_boundary (char_at doc i))
   \<and> startPos_of doc ts \<le> body_start doc ts
   \<and> body_end doc ts \<le> endPos_of doc ts
   \<and> extractRelevantSnippet doc ts title =
       (if title \<noteq> [] then ''**'' @ title @ ''**: '' else [])
       @ (if startPos_of doc ts > 0 then ''...'' else [])
       @ snippet_body doc ts
       @ (if endPos_of doc ts < length doc then ''...'' else [])"
proof (intro conjI allI impI)
  show "startPos_of doc ts \<le> body_start doc ts"
    by (simp add: body_start_def snippet_window_pair)
  show "\<And>i. startPos_of doc ts < i \<and> i \<le> bestPosition_of doc ts - 30
      \<Longrightarrow> \<not> is_boundary (char_at doc i)"
    using window_facts(8) by blast
  show "\<And>i. min (length doc) (bestPosition_of doc ts + 120) \<le> i \<and> i < endPos_of doc ts
      \<Longrightarrow> \<not> is_boundary (char_at doc i)"
    using window_facts(9) by blast
qed (rule body_facts window_facts snippet_assembly)+

theorem C8_snippet_boundaries_witness:
  "bestPosition_of sample_paragraph [''canary''] = 44
   \<and> startPos_of sample_paragraph [''canary''] = 12
   \<and> endPos_of sample_paragraph [''canary''] = 167
   \<and> body_start sample_paragraph [''canary''] = 13
   \<and> body_end sample_paragraph [''canary''] = 167
   \<and> \<not> is_boundary (char_at sample_paragraph 13)
   \<and> \<not> is_boundary (char_at sample_paragraph 165)
   \<and> (\<exists>c. char_at sample_paragraph 12 = Some c \<and> is_space c)
   \<and> (\<exists>c. char_at sample_paragraph 167 = Some c \<and> is_space c)"
proof -
  let ?ts = "[''canary'']"
  have b: "bestPosition_of sample_paragraph ?ts = 44" by code_simp
  have s: "adjust_start sample_paragraph 14 = 12" by code_simp
  have e: "adjust_end sample_paragraph 164 = 167" by code_simp
  have l: "length sample_paragraph = 171" by code_simp
  have sp: "startPos_of sample_paragraph ?ts = 12"
    by (simp add: startPos_of_def snippet_window_def Let_def b s)
  have ep: "endPos_of sample_paragraph ?ts = 167"
    by (simp add: endPos_of_def snippet_window_def Let_def b e l MAX_SNIPPET_LENGTH_def)
  have lead: "length (takeWhile is_space (substring sample_paragraph 12 167)) = 1" by code_simp
  have body: "length (trim (substring sample_paragraph 12 167)) = 154" by code_simp
  have w: "snippet_window sample_paragraph ?ts = (12, 167)"
    using sp ep by (simp add: startPos_of_def endPos_of_def prod_eq_iff)
  have p: "body_start sample_paragraph ?ts = 13"
    by (simp add: body_start_def w lead)
  have q: "body_end sample_paragraph ?ts = 167"
    by (simp add: body_end_def snippet_body_def w p body)
  note t = C8_snippet_boundaries [of sample_paragraph ?ts "[]"]
  from t have "startPos_of sample_paragraph ?ts < 13 \<and> 13 \<le> bestPosition_of sample_paragraph ?ts - 30
      \<longrightarrow> \<not> is_boundary (char_at sample_paragraph 13)" by blast
  then have i1: "\<not> is_boundary (char_at sample_paragraph 13)" by (simp add: sp b)
  from t have "min (length sample_paragraph) (bestPosition_of sample_paragraph ?ts + 120) \<le> 165
      \<and> 165 < endPos_of sample_paragraph ?ts
      \<longrightarrow> \<not> is_boundary (char_at sample_paragraph 165)" by blast
  then have i2: "\<not> is_boundary (char_at sample_paragraph 165)" by (simp add: ep b l)
  from t have "body_start sample_paragraph ?ts = 0
        \<or> (\<exists>c. char_at sample_paragraph (body_start sample_paragraph ?ts - 1) = Some c \<and> is_space c)"
    by blast
  then have c1: "\<exists>c. char_at sample_paragraph 12 = Some c \<and> is_space c" by (simp add: p)
  from t have "body_end sample_paragraph ?ts = length sample_paragraph
        \<or> (\<exists>c. char_at sample_paragraph (body_end sample_paragraph ?ts) = Some c \<and> is_space c)"
    by blast
  then have c2: "\<exists>c. char_at sample_paragraph 167 = Some c \<and> is_space c" by (simp add: q l)
  from b sp ep p q i1 i2 c1 c2 show ?thesis by blast
qed

section \<open>Properties of the section splitter\<close>

















lemma str_includes_suffix: "suffix t s \<Longrightarrow> prefix p t \<Longrightarrow> str_includes s p"
proof (induction s)
  case Nil
  then show ?case by simp
next
  case (Cons c cs)
  then show ?case by (auto simp: suffix_Cons)
qed










section \<open>Properties of the workflow extraction\<close>

lemma first_match_Some: "first_match f ks = Some x \<Longrightarrow> \<exists>k. f k = Some x"
  by (induction ks) (auto split: option.splits)

lemma re_at_step:
  assumes "re_at (a # r) s gs g = Some res"
  shows "\<exists>s' gs' g'. suffix s' s \<and> re_at r s' gs' g' = Some res"
proof (cases a)
  case (Lit l)
  have "re_at r (drop (length l) s) gs g = Some res"
    using assms Lit by (cases "prefix l s") simp_all
  then show ?thesis using suffix_drop by blast
next
  case (LitI l)
  have "re_at r (drop (length l) s) gs g = Some res" using assms LitI
    by (cases "length l \<le> length s \<and> toLowerCase (take (length l) s) = toLowerCase l")
       simp_all
  then show ?thesis using suffix_drop by blast
next
  case (Cls P)
  show ?thesis
  proof (cases s)
    case Nil
    then show ?thesis using assms Cls by simp
  next
    case (Cons c cs)
    then have "re_at r cs gs g = Some res" using assms Cls by (cases "P c") simp_all
    moreover have "suffix cs s" using Cons by (simp add: suffix_ConsI)
    ultimately show ?thesis by blast
  qed
next
  case (Rep greedy lo hi P)
  have "first_match (\<lambda>k. re_at r (drop k s) gs g)
      (counts greedy lo hi (length (takeWhile P s))) = Some res"
    using assms Rep by simp
  then obtain k where "re_at r (drop k s) gs g = Some res"
    using first_match_Some by fastforce
  then show ?thesis using suffix_drop by blast
next
  case (Ahead alts)
  have "re_at r s gs g = Some res"
    using assms Ahead by (cases "list_ex (\<lambda>a. re_at a s gs g \<noteq> None) alts") simp_all
  then show ?thesis by blast
next
  case Eoi
  have "re_at r s gs g = Some res" using assms Eoi by (cases "s = []") simp_all
  then show ?thesis by blast
next
  case GroupOpen
  have "re_at r s s g = Some res" using assms GroupOpen by simp
  then show ?thesis by blast
next
  case GroupClose
  have "re_at r s gs (Some (take (length gs - length s) gs)) = Some res"
    using assms GroupClose by simp
  then show ?thesis by blast
qed

lemma re_at_reaches:
  "re_at (pre @ r) s gs g = Some res \<Longrightarrow>
   \<exists>s' gs' g'. suffix s' s \<and> re_at r s' gs' g' = Some res"
proof (induction pre arbitrary: s gs g)
  case Nil
  then show ?case by auto
next
  case (Cons a pre)
  from Cons.prems obtain s1 gs1 g1 where s1: "suffix s1 s"
    and r1: "re_at (pre @ r) s1 gs1 g1 = Some res"
    using re_at_step [of a "pre @ r" s gs g res] by force
  from Cons.IH [OF r1] obtain s' gs' g' where "suffix s' s1" and "re_at r s' gs' g' = Some res"
    by blast
  then show ?case using s1 suffix_order.trans by blast
qed

lemma re_at_LitI_prefix:
  "re_at (LitI l # r) s gs g = Some res \<Longrightarrow> prefix (toLowerCase l) (toLowerCase s)"
proof -
  assume "re_at (LitI l # r) s gs g = Some res"
  then have "toLowerCase (take (length l) s) = toLowerCase l"
    by (cases "length l \<le> length s \<and> toLowerCase (take (length l) s) = toLowerCase l")
       simp_all
  then have "toLowerCase l = take (length l) (toLowerCase s)"
    by (simp add: toLowerCase_def take_map)
  then show ?thesis by (metis take_is_prefix)
qed

lemma re_search_Some:
  "re_search re s = Some m \<Longrightarrow> \<exists>t res. suffix t s \<and> re_at re t [] None = Some res"
proof (induction s arbitrary: m)
  case Nil
  show ?case
  proof (cases "re_at re [] [] None")
    case None
    then show ?thesis using Nil by simp
  next
    case (Some res)
    have "suffix [] ([] :: string) \<and> re_at re [] [] None = Some res" using Some by simp
    then show ?thesis by (intro exI)
  qed
next
  case (Cons c cs)
  show ?case
  proof (cases "re_at re (c # cs) [] None")
    case (Some res)
    have "suffix (c # cs) (c # cs) \<and> re_at re (c # cs) [] None = Some res" using Some by simp
    then show ?thesis by (intro exI)
  next
    case None
    show ?thesis
    proof (cases "re_search re cs")
      case none: None
      then show ?thesis using Cons.prems None by simp
    next
      case (Some m')
      from Cons.IH [OF this] obtain t res where "suffix t cs" and "re_at re t [] None = Some res"
        by (elim exE conjE)
      then have "suffix t (c # cs) \<and> re_at re t [] None = Some res"
        by (simp add: suffix_ConsI)
      then show ?thesis by (intro exI)
    qed
  qed
qed

lemma section_re_split:
  "section_re name =
     [Lit ''###'', Rep True 0 None is_space, Rep True 1 None is_digit, Lit ''.'',
      Rep True 0 None is_space] @ LitI name # tl (drop 5 (section_re name))"
  by (simp add: section_re_def)

lemma no_section_match:
  assumes "\<not> str_includes (toLowerCase rules) (toLowerCase name)"
  shows "re_search (section_re name) rules = None"
proof (rule ccontr)
  define pre where "pre = [Lit ''###'', Rep True 0 None is_space, Rep True 1 None is_digit,
        Lit ''.'', Rep True 0 None is_space]"
  define post where "post = tl (drop 5 (section_re name))"
  have split: "section_re name = pre @ LitI name # post"
    unfolding pre_def post_def by (rule section_re_split)
  assume "re_search (section_re name) rules \<noteq> None"
  then obtain m where "re_search (section_re name) rules = Some m" by blast
  from re_search_Some [OF this] obtain t res where t: "suffix t rules"
    and r: "re_at (section_re name) t [] None = Some res" by blast
  from r have "re_at (pre @ LitI name # post) t [] None = Some res" by (simp only: split)
  from re_at_reaches [OF this] obtain s' gs' g' where s': "suffix s' t"
    and l: "re_at (LitI name # post) s' gs' g' = Some res" by blast
  have "suffix s' rules" using s' t suffix_order.trans by blast
  then have "suffix (toLowerCase s') (toLowerCase rules)"
    by (simp add: toLowerCase_def map_mono_suffix)
  moreover have "prefix (toLowerCase name) (toLowerCase s')" using l by (rule re_at_LitI_prefix)
  ultimately have "str_includes (toLowerCase rules) (toLowerCase name)"
    by (rule str_includes_suffix)
  with assms show False by simp
qed

lemma workflow_default_cases:
  "(\<exists>e. byteRules_match js byteRules docType = Inl e)
     \<or> byteRules_match js byteRules docType = Inr None \<Longrightarrow>
   getDocumentWorkflow js byteRules docType = default_workflow docType"
  by (auto simp: getDocumentWorkflow_def)

text \<open>
  Claim C5. When the rules file cannot be read, the pattern cannot be built or the rules
  text has no section matching the type, the workflow is the fixed default: the purpose
  \<open>Information about T document\<close>, the update timing \<open>As needed\<close>, the single required
  section \<open>No specific structure defined\<close> and the single command \<open>update_document\<close>
  followed by the lower-cased type. A rules text that does not contain the type's name
  (compared without case) has no matching section. When a section matches and a field's
  pattern finds nothing in it, that field takes its default. The function returns a
  workflow on every input: an exception is caught and gives the default.
\<close>

theorem C5_schema_defaults:
  "((\<exists>e. byteRules_match js byteRules docType = Inl e)
      \<or> byteRules_match js byteRules docType = Inr None
     \<longrightarrow> getDocumentWorkflow js byteRules docType =
          \<lparr>purpose = ''Information about '' @ docType @ '' document'',
           updateTiming = ''As needed'',
           structure' = [''No specific structure defined''],
           commands = [''update_document '' @ toLowerCase docType]\<rparr>)
   \<and> (plain (replace_all ''Context'' '' Context'' docType)
        \<and> \<not> str_includes (toLowerCase rules)
              (toLowerCase (replace_all ''Context'' '' Context'' docType))
     \<longrightarrow> byteRules_match js (Some rules) docType = Inr None)
   \<and> (byteRules_match js byteRules docType = Inr (Some sectionContent) \<longrightarrow>
        (re_search (line_field_re ''Purpose'') sectionContent = None
           \<longrightarrow> purpose (getDocumentWorkflow js byteRules docType)
                 = ''Information about '' @ docType)
        \<and> (re_search (line_field_re ''When to Update'') sectionContent = None
           \<longrightarrow> updateTiming (getDocumentWorkflow js byteRules docType) = ''As needed'')
        \<and> (re_search (block_field_re ''Structure'') sectionContent = None
           \<longrightarrow> structure' (getDocumentWorkflow js byteRules docType)
                 = [''No specific structure defined''])
        \<and> (re_search (block_field_re ''Commands'') sectionContent = None
           \<longrightarrow> commands (getDocumentWorkflow js byteRules docType)
                 = [''update_document '' @ toLowerCase docType]))"
proof (intro conjI impI)
  assume "(\<exists>e. byteRules_match js byteRules docType = Inl e)
      \<or> byteRules_match js byteRules docType = Inr None"
  then show "getDocumentWorkflow js byteRules docType =
          \<lparr>purpose = ''Information about '' @ docType @ '' document'',
           updateTiming = ''As needed'',
           structure' = [''No specific structure defined''],
           commands = [''update_document '' @ toLowerCase docType]\<rparr>"
    using workflow_default_cases [of js byteRules docType] by (simp add: default_workflow_def)
next
  assume "plain (replace_all ''Context'' '' Context'' docType)
        \<and> \<not> str_includes (toLowerCase rules)
              (toLowerCase (replace_all ''Context'' '' Context'' docType))"
  then show "byteRules_match js (Some rules) docType = Inr None"
    by (simp add: byteRules_match_def section_RegExp_def no_section_match)
next
  assume m: "byteRules_match js byteRules docType = Inr (Some sectionContent)"
  {
    assume "re_search (line_field_re ''Purpose'') sectionContent = None"
    then show "purpose (getDocumentWorkflow js byteRules docType) = ''Information about '' @ docType"
      using m by (simp add: getDocumentWorkflow_def parse_section_def)
  }
  {
    assume "re_search (line_field_re ''When to Update'') sectionContent = None"
    then show "updateTiming (getDocumentWorkflow js byteRules docType) = ''As needed''"
      using m by (simp add: getDocumentWorkflow_def parse_section_def)
  }
  {
    assume "re_search (block_field_re ''Structure'') sectionContent = None"
    then show "structure' (getDocumentWorkflow js byteRules docType)
        = [''No specific structure defined'']"
      using m by (simp add: getDocumentWorkflow_def parse_section_def)
  }
  {
    assume "re_search (block_field_re ''Commands'') sectionContent = None"
    then show "commands (getDocumentWorkflow js byteRules docType)
        = [''update_document '' @ toLowerCase docType]"
      using m by (simp add: getDocumentWorkflow_def parse_section_def)
  }
qed

theorem C5_schema_defaults_witness:
  "byteRules_match nojs (Some sample_rules) ''progress'' = Inr None
   \<and> getDocumentWorkflow nojs (Some sample_rules) ''progress''
       = \<lparr>purpose = ''Information about progress document'', updateTiming = ''As needed'',
          structure' = [''No specific structure defined''],
          commands = [''update_document progress'']\<rparr>
   \<and> getDocumentWorkflow nojs None ''progress''
       = \<lparr>purpose = ''Information about progress document'', updateTiming = ''As needed'',
          structure' = [''No specific structure defined''],
          commands = [''update_document progress'']\<rparr>
   \<and> updateTiming (getDocumentWorkflow nojs (Some sample_rules) ''techContext'') = ''As needed''
   \<and> commands (getDocumentWorkflow nojs (Some sample_rules) ''techContext'')
       = [''update_document techcontext'']"
proof -
  have lp: "toLowerCase ''progress'' = ''progress''" by code_simp
  have lc: "toLowerCase ''techContext'' = ''techcontext''" by code_simp
  have h: "plain (replace_all ''Context'' '' Context'' ''progress'')
      \<and> \<not> str_includes (toLowerCase sample_rules)
            (toLowerCase (replace_all ''Context'' '' Context'' ''progress''))"
    by code_simp
  note p = C5_schema_defaults [of nojs "Some sample_rules" "''progress''" sample_rules "[]"]
  have m: "byteRules_match nojs (Some sample_rules) ''progress'' = Inr None"
    using p [THEN conjunct2, THEN conjunct1] h by (rule mp)
  then have "(\<exists>e. byteRules_match nojs (Some sample_rules) ''progress'' = Inl e)
      \<or> byteRules_match nojs (Some sample_rules) ''progress'' = Inr None" by simp
  with p [THEN conjunct1] have d: "getDocumentWorkflow nojs (Some sample_rules) ''progress''
       = \<lparr>purpose = ''Information about progress document'', updateTiming = ''As needed'',
          structure' = [''No specific structure defined''],
          commands = [''update_document progress'']\<rparr>"
    by (simp add: lp)
  have "byteRules_match nojs None ''progress'' = Inl ReadError" by (simp add: byteRules_match_def)
  then have "(\<exists>e. byteRules_match nojs None ''progress'' = Inl e)
      \<or> byteRules_match nojs None ''progress'' = Inr None" by simp
  with C5_schema_defaults [of nojs None "''progress''" "[]" "[]", THEN conjunct1]
  have n: "getDocumentWorkflow nojs None ''progress''
       = \<lparr>purpose = ''Information about progress document'', updateTiming = ''As needed'',
          structure' = [''No specific structure defined''],
          commands = [''update_document progress'']\<rparr>"
    by (simp add: lp)
  define sc where "sc = ''### 4. Tech Context (techContext.md)\<newline>- **Purpose**: Specifies technology stack\<newline>- **Structure**:\<newline>  - Stack\<newline>  - Setup\<newline>\<newline>''"
  have t: "byteRules_match nojs (Some sample_rules) ''techContext'' = Inr (Some sc)"
    unfolding sc_def by code_simp
  have u: "re_search (line_field_re ''When to Update'') sc = None" unfolding sc_def by code_simp
  have c: "re_search (block_field_re ''Commands'') sc = None" unfolding sc_def by code_simp
  note q = C5_schema_defaults [of nojs "Some sample_rules" "''techContext''" "[]" sc,
      THEN conjunct2, THEN conjunct2, THEN mp, OF t]
  have 1: "updateTiming (getDocumentWorkflow nojs (Some sample_rules) ''techContext'') = ''As needed''"
    using q [THEN conjunct2, THEN conjunct1] u by (rule mp)
  have "commands (getDocumentWorkflow nojs (Some sample_rules) ''techContext'')
       = [''update_document '' @ toLowerCase ''techContext'']"
    using q [THEN conjunct2, THEN conjunct2, THEN conjunct2] c by (rule mp)
  then have 2: "commands (getDocumentWorkflow nojs (Some sample_rules) ''techContext'')
       = [''update_document techcontext'']"
    by (simp add: lc)
  from m d n 1 2 show ?thesis by (intro conjI)
qed

section \<open>Properties of the consistency analysis\<close>

lemma missing_loop_ok:
  "list_all (\<lambda>name. sectionRegex js name \<noteq> None) names \<Longrightarrow>
   missing_loop js content names acc = Inr (acc @ filter (section_missing js content) names)"
proof (induction names arbitrary: acc)
  case Nil
  then show ?case by simp
next
  case (Cons name names)
  then obtain regex where r: "sectionRegex js name = Some regex" by auto
  have "list_all (\<lambda>name. sectionRegex js name \<noteq> None) names" using Cons.prems by simp
  note ih = Cons.IH [OF this]
  show ?case by (simp add: r ih section_missing_def)
qed


lemma analyze_document_ok:
  "list_all (\<lambda>name. sectionRegex js name \<noteq> None)
      (structure' (getDocumentWorkflow js byteRules docName)) \<Longrightarrow>
   analyze_document js now byteRules docName content
     = Inr (expected_analysis js now byteRules (docName, content))"
  by (simp add: analyze_document_def missing_loop_ok expected_analysis_def Let_def)


lemma analyze_loop_ok:
  "patterns_ok js byteRules docs \<Longrightarrow>
   analyze_loop js now byteRules docs results
     = Inr (results @ map (expected_analysis js now byteRules) (filter standard docs))"
proof (induction docs arbitrary: results)
  case Nil
  then show ?case by simp
next
  case (Cons x docs)
  obtain docName content where x: "x = (docName, content)" by (cases x)
  show ?case
  proof (cases "docName \<in> set standard_documents")
    case False
    then have "patterns_ok js byteRules docs"
      using Cons.prems by (simp add: patterns_ok_def standard_def x)
    then show ?thesis using False Cons.IH by (simp add: x standard_def)
  next
    case True
    then have ok: "list_all (\<lambda>name. sectionRegex js name \<noteq> None)
        (structure' (getDocumentWorkflow js byteRules docName))"
      and rest: "patterns_ok js byteRules docs"
      using Cons.prems by (simp_all add: patterns_ok_def standard_def x)
    show ?thesis
      using True by (simp add: x standard_def analyze_document_ok [OF ok] Cons.IH [OF rest])
  qed
qed


text \<open>The staleness flag: set when the body has no marker; with a marker whose date
  parses, set exactly when that date is earlier than 30 days before \<open>now\<close>; not set when
  the date does not parse.\<close>

lemma needsUpdate_cases:
  "(re_search lastUpdated_re content = None \<longrightarrow> needsUpdate_of now content)
   \<and> (re_search lastUpdated_re content = Some (before, matched, rest, Some g)
        \<longrightarrow> needsUpdate_of now content
            = (case Date_parse g of None \<Rightarrow> False | Some t \<Rightarrow> t < now - 30 * msPerDay))"
  by (simp add: needsUpdate_of_def Let_def)

text \<open>
  Claim C6 fails on a marker whose date does not parse. \<open>Last Updated: 2024-31-12\<close> matches
  the marker's pattern, \<^verbatim>\<open>new Date("2024-31-12")\<close> is an invalid date, and the comparison of
  \<^verbatim>\<open>NaN\<close> with the date 30 days ago is false: the document is not flagged, at any time
  \<open>now\<close>, and with all its sections present it is reported as good.
\<close>

theorem C6_invalid_date_not_flagged:
  "re_search lastUpdated_re sample_doc_invalid
     = Some (''# Tech\<newline>> '', ''Last Updated: 2024-31-12'',
             ''\<newline>\<newline>## Stack\<newline>x\<newline>\<newline>## setup\<newline>y'', Some ''2024-31-12'')
   \<and> Date_parse ''2024-31-12'' = None
   \<and> needsUpdate_of now sample_doc_invalid = False
   \<and> analyzeDocumentConsistency nojs now (Some sample_rules)
         (Some [(''techContext'', sample_doc_invalid)])
       = Inr [\<lparr>documentType = ''techContext'', status = good,
                recommendation = ''Document follows the structure defined in ByteRules''\<rparr>]"
proof -
  have s: "re_search lastUpdated_re sample_doc_invalid
     = Some (''# Tech\<newline>> '', ''Last Updated: 2024-31-12'',
             ''\<newline>\<newline>## Stack\<newline>x\<newline>\<newline>## setup\<newline>y'', Some ''2024-31-12'')"
    by code_simp
  have d: "Date_parse ''2024-31-12'' = None" by code_simp
  have n: "needsUpdate_of now sample_doc_invalid = False"
    by (simp add: needsUpdate_of_def s d)
  have wf: "structure' (getDocumentWorkflow nojs (Some sample_rules) ''techContext'') = [''Stack'', ''Setup'']"
    by code_simp
  have ok: "patterns_ok nojs (Some sample_rules) [(''techContext'', sample_doc_invalid)]"
    by (simp add: patterns_ok_def standard_def standard_documents_def wf sectionRegex_def
        plain_def syntax_chars_def)
  have f: "filter standard [(''techContext'', sample_doc_invalid)] = [(''techContext'', sample_doc_invalid)]"
    by (simp add: standard_def standard_documents_def)
  have m: "filter (section_missing nojs sample_doc_invalid) [''Stack'', ''Setup''] = []"
    by code_simp
  have e: "expected_analysis nojs now (Some sample_rules) (''techContext'', sample_doc_invalid)
      = \<lparr>documentType = ''techContext'', status = good,
          recommendation = ''Document follows the structure defined in ByteRules''\<rparr>"
    unfolding expected_analysis_def prod.case Let_def wf m n by simp
  have "analyzeDocumentConsistency nojs now (Some sample_rules)
         (Some [(''techContext'', sample_doc_invalid)])
       = Inr [\<lparr>documentType = ''techContext'', status = good,
                recommendation = ''Document follows the structure defined in ByteRules''\<rparr>]"
    using analyze_loop_ok [OF ok, of now "[]", unfolded f]
    by (simp only: analyzeDocumentConsistency_def option.case list.map e append_Nil)
  with s d n show ?thesis by (intro conjI)
qed



end
